theory Spec2Isabelle
  imports Complex_Main "HOL-Library.Word"
begin

unbundle bit_operations_syntax

section \<open>The MXR protocol frame codec\<close>

text \<open>
  A shallow embedding of \<^verbatim>\<open>services/canProtocolService.ts\<close> and of the tables of
  \<^verbatim>\<open>types.ts\<close> it reads. A JavaScript \<^verbatim>\<open>number\<close> that the code uses as an integer
  (an address, an identifier) is an \<open>int\<close>; the bitwise operators first convert it to a
  32-bit integer (\<open>ToInt32\<close>), which is a \<open>32 word\<close> here. An \<^verbatim>\<open>ArrayBuffer\<close> is a list
  of bytes, a \<^verbatim>\<open>Uint8Array\<close> is a window on such a buffer, and a read of a
  \<^verbatim>\<open>DataView\<close> beyond its buffer is the error value \<open>RangeError\<close>.
\<close>

subsection \<open>Numbers\<close>

text \<open>
  The \<^verbatim>\<open>value\<close> of a payload is a \<^verbatim>\<open>number\<close> that may be fractional, infinite or
  NaN. \<open>Fin q\<close> stands for the number closest to the rational \<open>q\<close>; every 32-bit integer
  and every finite binary32 value is such a number exactly. \<open>Fin 0\<close> is the positive
  zero and \<open>NegZero\<close> the negative one, which no rational tells apart.
\<close>

datatype jsnum = NaN | PosInf | NegInf | NegZero | Fin rat

text \<open>The rational that a finite number stands for; both zeros stand for 0.\<close>

definition finite_value :: "jsnum \<Rightarrow> rat option" where
  "finite_value v = (case v of Fin q \<Rightarrow> Some q | NegZero \<Rightarrow> Some 0 | _ \<Rightarrow> None)"

type_synonym byte = "8 word"

definition ToInt32 :: "int \<Rightarrow> 32 word" where
  "ToInt32 n = word_of_int n"

text \<open>The integer a number is truncated to before it is stored in an integer field;
  NaN, the infinities and the negative zero give 0.\<close>

definition ToIntegerOrZero :: "jsnum \<Rightarrow> int" where
  "ToIntegerOrZero v = (case v of Fin q \<Rightarrow> (if 0 \<le> q then \<lfloor>q\<rfloor> else \<lceil>q\<rceil>) | _ \<Rightarrow> 0)"

subsection \<open>Strings\<close>

text \<open>\<^verbatim>\<open>Number.prototype.toString(radix)\<close> on an integer: the digits of the
  magnitude, most significant first, after a minus sign for a negative one.\<close>

definition digit_char :: "int \<Rightarrow> char" where
  "digit_char d = ''0123456789abcdefghijklmnopqrstuvwxyz'' ! nat d"

function digits :: "int \<Rightarrow> int \<Rightarrow> string" where
  "digits b n =
     (if b < 2 \<or> n < b then [digit_char n]
      else digits b (n div b) @ [digit_char (n mod b)])"
  by pat_completeness auto
termination
  by (relation "measure (\<lambda>(b, n). nat n)") (auto simp: int_div_less_self)

declare digits.simps [simp del]

definition toStringRadix :: "int \<Rightarrow> int \<Rightarrow> string" where
  "toStringRadix b n = (if n < 0 then ''-'' @ digits b (- n) else digits b n)"

text \<open>The decimal text of an integer, as a template literal prints it.\<close>

definition toStringInt :: "int \<Rightarrow> string" where
  "toStringInt i = toStringRadix 10 i"

text \<open>\<^verbatim>\<open>toUpperCase\<close>, on the ASCII letters (it is only applied to hexadecimal text).\<close>

definition upper_char :: "char \<Rightarrow> char" where
  "upper_char c =
     (case map_of (zip ''abcdefghijklmnopqrstuvwxyz'' ''ABCDEFGHIJKLMNOPQRSTUVWXYZ'') c of
        Some u \<Rightarrow> u
      | None \<Rightarrow> c)"

definition toUpperCase :: "string \<Rightarrow> string" where
  "toUpperCase s = map upper_char s"

definition padStart :: "nat \<Rightarrow> char \<Rightarrow> string \<Rightarrow> string" where
  "padStart n c s = replicate (n - length s) c @ s"

fun join :: "string \<Rightarrow> string list \<Rightarrow> string" where
  "join sep [] = []"
| "join sep [x] = x"
| "join sep (x # y # ys) = x @ sep @ join sep (y # ys)"

subsection \<open>The tables of \<^verbatim>\<open>types.ts\<close>\<close>

datatype RegisterType = READ_ONLY_FLOAT | READ_ONLY_INT | WRITE_ONLY_FLOAT | WRITE_ONLY_INT

record RegisterDefinition =
  address :: int
  name :: string
  type :: RegisterType
  unit :: "string option"
  description :: string
  options :: "(int \<times> string) list option"

definition MXR_ID_DEFAULT :: int where "MXR_ID_DEFAULT = 0x15"
definition MODULE_TYPE_FIXED :: int where "MODULE_TYPE_FIXED = 0x81"
definition MONITOR_ADDR :: int where "MONITOR_ADDR = 0xA0"
definition BROADCAST_ADDR :: int where "BROADCAST_ADDR = 0xFF"

definition mkreg ::
  "int \<Rightarrow> string \<Rightarrow> RegisterType \<Rightarrow> string option \<Rightarrow> string \<Rightarrow> (int \<times> string) list option
     \<Rightarrow> RegisterDefinition" where
  "mkreg a n t u d os =
     \<lparr>address = a, name = n, type = t, unit = u, description = d, options = os\<rparr>"

definition STATUS_OPTIONS :: "(int \<times> string) list" where
  "STATUS_OPTIONS =
     [(0x0000, ''Power-on default''),
      (0x0001, ''Initialization''),
      (0x0002, ''Fault''),
      (0x0003, ''Standby''),
      (0x0004, ''Start Delay / Relay Action''),
      (0x0006, ''Soft Start''),
      (0x0007, ''Running'')]"

definition CONTROL_OPTIONS :: "(int \<times> string) list" where
  "CONTROL_OPTIONS = [(0, ''Startup (0x00)''), (1, ''Shutdown (0x01)'')]"

text \<open>The register map, in the order of the source. The unit of register 6 is the
  three code units C2, B0 and C of the source text.\<close>

definition REGISTER_LIST :: "(int \<times> RegisterDefinition) list" where
  "REGISTER_LIST =
     [(0x0001, mkreg 0x0001 ''Output Voltage'' READ_ONLY_FLOAT (Some ''V'')
                 ''Current output voltage'' None),
      (0x0002, mkreg 0x0002 ''Output Current'' READ_ONLY_FLOAT (Some ''A'')
                 ''Current output current'' None),
      (0x0004, mkreg 0x0004 ''Input Voltage'' READ_ONLY_FLOAT (Some ''V'')
                 ''AC Input voltage'' None),
      (0x0006, mkreg 0x0006 ''Inlet Temp'' READ_ONLY_FLOAT
                 (Some [char_of (0xC2 :: nat), char_of (0xB0 :: nat), CHR ''C''])
                 ''Air inlet temperature'' None),
      (0x0100, mkreg 0x0100 ''Alarm Info'' READ_ONLY_INT None
                 ''Bitmap of alarms (See Table 2.1)'' None),
      (0x0101, mkreg 0x0101 ''Status'' READ_ONLY_INT None
                 ''Operating status'' (Some STATUS_OPTIONS)),
      (0x0110, mkreg 0x0110 ''ON/OFF Status'' READ_ONLY_INT None
                 ''0=Start, 1=Stop'' None),
      (0x0400, mkreg 0x0400 ''Control Command'' WRITE_ONLY_INT None
                 ''Set Startup/Shutdown'' (Some CONTROL_OPTIONS)),
      (0x0410, mkreg 0x0410 ''Set Output Voltage'' WRITE_ONLY_FLOAT (Some ''V'')
                 ''Target voltage setting'' None),
      (0x0411, mkreg 0x0411 ''Set Output Current'' WRITE_ONLY_FLOAT (Some ''A'')
                 ''Target current limit'' None),
      (0x0301, mkreg 0x0301 ''Troubleshooting'' WRITE_ONLY_INT None
                 ''Clear Faults: 1=Enable'' None)]"

definition REGISTERS :: "int \<Rightarrow> RegisterDefinition option" where
  "REGISTERS = map_of REGISTER_LIST"

definition ALARM_BITS :: "string list" where
  "ALARM_BITS =
     [''Input Overvoltage'', ''Input Undervoltage'', ''Output Overvoltage'', ''Output Undervoltage'',
      ''Input Ext Overvoltage'', ''Input Ext Undervoltage'', ''Output Ext Overvoltage'',
      ''Output Ext Undervoltage'',
      ''Inlet Temp Low'', ''Reserved'', ''Internal OverTemp 1'', ''Internal OverTemp 2'',
      ''Inlet OverTemp'', ''Ref Voltage 1 Abnormal'', ''Ref Voltage 2 Abnormal'', ''Fan Failure'',
      ''Input Fast Overvolt'', ''Output Fast Overvolt'', ''Overcurrent Protection'', ''Emergency Stop'',
      ''CAN Comm Failure'', ''CAN Bus Fault'', ''Reserved'', ''Reserved'',
      ''Overvolt Disconnect'', ''Reserved'', ''Output Short Circuit'', ''Reserved'',
      ''Reserved'', ''Reserved'', ''Module Lockup'', ''Reserved'']"

subsection \<open>The frame identifier\<close>

record IdParts =
  mxrId :: int
  moduleType :: int
  dstAddr :: int
  srcAddr :: int

text \<open>\<^verbatim>\<open>buildFrameId(dstAddr, srcAddr = MONITOR_ADDR)\<close>: an omitted second argument is
  \<open>None\<close>. The result of \<^verbatim>\<open>id >>> 0\<close> is the unsigned reading of the 32 bits.\<close>

definition buildFrameId :: "int \<Rightarrow> int option \<Rightarrow> int" where
  "buildFrameId dst_addr src_arg =
     (let src_addr = (case src_arg of None \<Rightarrow> MONITOR_ADDR | Some s \<Rightarrow> s);
          id0 = (0 :: 32 word);
          id1 = id0 OR push_bit 24 (ToInt32 MXR_ID_DEFAULT AND 0x1F);
          id2 = id1 OR push_bit 16 (ToInt32 MODULE_TYPE_FIXED AND 0xFF);
          id3 = id2 OR push_bit 8 (ToInt32 dst_addr AND 0xFF);
          id4 = id3 OR (ToInt32 src_addr AND 0xFF)
      in uint id4)"

text \<open>\<^verbatim>\<open>>>\<close> is the arithmetic shift of the 32-bit integer; the result of \<^verbatim>\<open>&\<close> is read
  as a signed 32-bit integer.\<close>

definition parseFrameId :: "int \<Rightarrow> IdParts" where
  "parseFrameId ident =
     \<lparr>mxrId = sint (signed_drop_bit 24 (ToInt32 ident) AND 0x1F),
      moduleType = sint (signed_drop_bit 16 (ToInt32 ident) AND 0xFF),
      dstAddr = sint (signed_drop_bit 8 (ToInt32 ident) AND 0xFF),
      srcAddr = sint (ToInt32 ident AND 0xFF)\<rparr>"

subsection \<open>IEEE-754 binary32\<close>

text \<open>
  What \<^verbatim>\<open>DataView.getFloat32\<close> makes of 32 bits: sign, 8 bits of exponent, 23 bits of
  fraction. A finite value is its significand times a power of two, counted in units of
  \<open>2 ^ - 149\<close>, the smallest subnormal; a zero keeps its sign.
\<close>

definition float32_value :: "32 word \<Rightarrow> jsnum" where
  "float32_value w =
     (let negative = bit w 31;
          e = unat (drop_bit 23 w AND 0xFF);
          m = uint (w AND 0x7FFFFF)
      in if e = 255 then (if m = 0 then (if negative then NegInf else PosInf) else NaN)
         else let mag = (of_int ((if e = 0 then m else 2 ^ 23 + m) * 2 ^ (e - 1)) / 2 ^ 149 :: rat)
              in if mag = 0 then (if negative then NegZero else Fin 0)
                 else Fin (if negative then - mag else mag))"

definition round_half_even :: "rat \<Rightarrow> int" where
  "round_half_even x =
     (let f = \<lfloor>x\<rfloor>; d = x - of_int f
      in if d < 1 / 2 then f else if 1 / 2 < d then f + 1 else if even f then f else f + 1)"

text \<open>The number of binary digits of a positive integer.\<close>

function bit_length :: "int \<Rightarrow> nat" where
  "bit_length n = (if n \<le> 0 then 0 else Suc (bit_length (n div 2)))"
  by pat_completeness auto
termination
  by (relation "measure nat") (auto simp: int_div_less_self)

declare bit_length.simps [simp del]

text \<open>
  What \<^verbatim>\<open>DataView.setFloat32\<close> stores: the binary32 value nearest to the number, ties
  to the even significand, infinity beyond the largest finite value. \<open>r\<close> is the
  magnitude in units of \<open>2 ^ - 149\<close>, \<open>s\<close> the power of two that leaves 24 bits of
  significand. The sign bit is that of the number, also when it is rounded to zero.
  NaN is stored as the quiet NaN 7FC00000.
\<close>

definition float32_bits :: "jsnum \<Rightarrow> 32 word" where
  "float32_bits v =
     (case v of
        NaN \<Rightarrow> 0x7FC00000
      | PosInf \<Rightarrow> 0x7F800000
      | NegInf \<Rightarrow> 0xFF800000
      | NegZero \<Rightarrow> 0x80000000
      | Fin q \<Rightarrow>
          (let r = \<bar>q\<bar> * 2 ^ 149;
               s0 = bit_length \<lfloor>r\<rfloor> - 24;
               m0 = round_half_even (r / 2 ^ s0);
               m = (if m0 = 2 ^ 24 then 2 ^ 23 else m0);
               s = (if m0 = 2 ^ 24 then s0 + 1 else s0);
               e = (if m < 2 ^ 23 then 0 else s + 1);
               frac = (if m < 2 ^ 23 then m else m - 2 ^ 23);
               signbit = (if q < 0 then 0x80000000 else 0)
           in if 255 \<le> e then signbit OR 0x7F800000
              else signbit OR push_bit 23 (of_nat e) OR word_of_int frac))"

text \<open>
  \<^verbatim>\<open>parseFloat(val.toFixed(2))\<close>. \<^verbatim>\<open>toFixed(2)\<close> prints the integer \<open>n\<close> nearest to
  \<open>100 * \<bar>x\<bar>\<close> (the larger of two) with a point before its last two digits, and a
  minus sign when \<open>x < 0\<close>; from \<open>10 ^ 21\<close> on, and for NaN and the infinities, it prints
  the number itself, which \<^verbatim>\<open>parseFloat\<close> reads back. So a negative number that rounds
  to "-0.00" is read back as the negative zero, and the negative zero, which is not
  below 0, is printed "0.00" and read back as the positive zero.
\<close>

definition toFixed2_value :: "rat \<Rightarrow> rat" where
  "toFixed2_value x =
     (let n = \<lfloor>\<bar>x\<bar> * 100 + 1 / 2\<rfloor>
      in if x < 0 then - (of_int n / 100) else of_int n / 100)"

definition parseFloat_toFixed2 :: "jsnum \<Rightarrow> jsnum" where
  "parseFloat_toFixed2 v =
     (case v of
        Fin x \<Rightarrow>
          (if \<bar>x\<bar> < 10 ^ 21
           then (if x < 0 \<and> toFixed2_value x = 0 then NegZero else Fin (toFixed2_value x))
           else Fin x)
      | NegZero \<Rightarrow> Fin 0
      | _ \<Rightarrow> v)"

subsection \<open>ArrayBuffer, Uint8Array and DataView\<close>

datatype error = RangeError

text \<open>
  A \<^verbatim>\<open>Uint8Array\<close> shows \<open>byteLength\<close> bytes of its buffer, from \<open>byteOffset\<close> on; the
  platform only makes arrays that lie within their buffer. \<^verbatim>\<open>new Uint8Array(x)\<close> on a
  list of bytes or on a whole buffer shows all of it, from offset 0.
  \<^verbatim>\<open>Array.from\<close> lists the bytes the array shows.
\<close>

record Uint8Array =
  buffer :: "byte list"
  byteOffset :: nat
  byteLength :: nat

definition valid_array :: "Uint8Array \<Rightarrow> bool" where
  "valid_array a = (byteOffset a + byteLength a \<le> length (buffer a))"

definition new_Uint8Array :: "byte list \<Rightarrow> Uint8Array" where
  "new_Uint8Array bs = \<lparr>buffer = bs, byteOffset = 0, byteLength = length bs\<rparr>"

definition Array_from :: "Uint8Array \<Rightarrow> byte list" where
  "Array_from a = take (byteLength a) (drop (byteOffset a) (buffer a))"

definition be16 :: "byte \<Rightarrow> byte \<Rightarrow> 16 word" where
  "be16 b0 b1 = push_bit 8 (ucast b0) OR ucast b1"

definition be32 :: "byte \<Rightarrow> byte \<Rightarrow> byte \<Rightarrow> byte \<Rightarrow> 32 word" where
  "be32 b0 b1 b2 b3 =
     push_bit 24 (ucast b0) OR push_bit 16 (ucast b1) OR push_bit 8 (ucast b2) OR ucast b3"

definition bytes16 :: "16 word \<Rightarrow> byte list" where
  "bytes16 w = [ucast (drop_bit 8 w), ucast w]"

definition bytes32 :: "32 word \<Rightarrow> byte list" where
  "bytes32 w = [ucast (drop_bit 24 w), ucast (drop_bit 16 w), ucast (drop_bit 8 w), ucast w]"

text \<open>Reads of a \<^verbatim>\<open>DataView\<close> on a whole buffer. Every one fails with \<open>RangeError\<close>
  when it would pass the end of the buffer, and the caller stops at the first error.\<close>

definition getUint8 :: "byte list \<Rightarrow> nat \<Rightarrow> error + int" where
  "getUint8 view off =
     (if off + 1 \<le> length view then Inr (uint (view ! off)) else Inl RangeError)"

definition getUint16 :: "byte list \<Rightarrow> nat \<Rightarrow> error + int" where
  "getUint16 view off =
     (if off + 2 \<le> length view then Inr (uint (be16 (view ! off) (view ! (off + 1))))
      else Inl RangeError)"

definition word32_at :: "byte list \<Rightarrow> nat \<Rightarrow> 32 word" where
  "word32_at view off =
     be32 (view ! off) (view ! (off + 1)) (view ! (off + 2)) (view ! (off + 3))"

definition getInt32 :: "byte list \<Rightarrow> nat \<Rightarrow> error + int" where
  "getInt32 view off =
     (if off + 4 \<le> length view then Inr (sint (word32_at view off)) else Inl RangeError)"

definition getUint32 :: "byte list \<Rightarrow> nat \<Rightarrow> error + int" where
  "getUint32 view off =
     (if off + 4 \<le> length view then Inr (uint (word32_at view off)) else Inl RangeError)"

definition getFloat32 :: "byte list \<Rightarrow> nat \<Rightarrow> error + jsnum" where
  "getFloat32 view off =
     (if off + 4 \<le> length view then Inr (float32_value (word32_at view off))
      else Inl RangeError)"

text \<open>Writes return the buffer with the bytes replaced.\<close>

fun store :: "byte list \<Rightarrow> nat \<Rightarrow> byte list \<Rightarrow> byte list" where
  "store view off [] = view"
| "store view off (b # bs) = store (view[off := b]) (off + 1) bs"

definition setUint8 :: "byte list \<Rightarrow> nat \<Rightarrow> int \<Rightarrow> error + byte list" where
  "setUint8 view off v =
     (if off + 1 \<le> length view then Inr (store view off [word_of_int v]) else Inl RangeError)"

definition setUint16 :: "byte list \<Rightarrow> nat \<Rightarrow> int \<Rightarrow> error + byte list" where
  "setUint16 view off v =
     (if off + 2 \<le> length view then Inr (store view off (bytes16 (word_of_int v)))
      else Inl RangeError)"

definition setInt32 :: "byte list \<Rightarrow> nat \<Rightarrow> jsnum \<Rightarrow> error + byte list" where
  "setInt32 view off v =
     (if off + 4 \<le> length view
      then Inr (store view off (bytes32 (ToInt32 (ToIntegerOrZero v))))
      else Inl RangeError)"

definition setFloat32 :: "byte list \<Rightarrow> nat \<Rightarrow> jsnum \<Rightarrow> error + byte list" where
  "setFloat32 view off v =
     (if off + 4 \<le> length view then Inr (store view off (bytes32 (float32_bits v)))
      else Inl RangeError)"

subsection \<open>The payload\<close>

text \<open>The buffer of 8 zero bytes is written through a \<^verbatim>\<open>DataView\<close> and returned as
  \<^verbatim>\<open>new Uint8Array(buffer)\<close>.\<close>

definition buildDataPayload :: "int \<Rightarrow> jsnum \<Rightarrow> bool \<Rightarrow> error + Uint8Array" where
  "buildDataPayload registerAddr val isFloat =
     (case setUint8 (replicate 8 0) 0 0x00 of Inl e \<Rightarrow> Inl e | Inr v1 \<Rightarrow>
     (case setUint8 v1 1 0x00 of Inl e \<Rightarrow> Inl e | Inr v2 \<Rightarrow>
     (case setUint16 v2 2 registerAddr of Inl e \<Rightarrow> Inl e | Inr v3 \<Rightarrow>
     (case (if isFloat then setFloat32 v3 4 val else setInt32 v3 4 val) of
        Inl e \<Rightarrow> Inl e
      | Inr v4 \<Rightarrow> Inr (new_Uint8Array v4)))))"

subsection \<open>Decoding a frame\<close>

datatype DecodedValue = NumVal jsnum | StrVal string

record DecodedFrame = IdParts +
  register :: int
  rawPayloadHex :: string
  decodedValue :: DecodedValue
  isError :: bool
  errorDescription :: string

text \<open>The return code of byte 0: the error flag and its description.\<close>

definition returnCodeStatus :: "int \<Rightarrow> bool \<times> string" where
  "returnCodeStatus returnCode =
     (let isResponse = (returnCode \<in> set [0xF0, 0xF1, 0xF2])
      in if isResponse
         then (if returnCode = 0xF2 then (True, ''F2: Failure, discard frame'')
               else if returnCode = 0xF1 then (False, ''F1: Forced to default value'')
               else (False, ''''))
         else (False, ''''))"

text \<open>The loop over the 32 bits of the alarm bitmap, from bit \<open>i\<close> on.\<close>

function alarm_loop :: "int \<Rightarrow> nat \<Rightarrow> string list \<Rightarrow> string list" where
  "alarm_loop val i alarms =
     (if i < 32
      then alarm_loop val (i + 1)
             (if signed_drop_bit i (ToInt32 val) AND 1 \<noteq> 0 then alarms @ [ALARM_BITS ! i]
              else alarms)
      else alarms)"
  by pat_completeness auto
termination
  by (relation "measure (\<lambda>(val, i, alarms). 32 - i)") auto

declare alarm_loop.simps [simp del]

text \<open>
  The label \<^verbatim>\<open>registerDef.options && registerDef.options[val]\<close>, the empty text when
  there is none: the test of the source takes a missing label and an empty one alike.
\<close>

definition option_label :: "RegisterDefinition \<Rightarrow> int \<Rightarrow> string" where
  "option_label registerDef val =
     (case options registerDef of
        None \<Rightarrow> ''''
      | Some opts \<Rightarrow> (case map_of opts val of None \<Rightarrow> '''' | Some l \<Rightarrow> l))"

text \<open>The integer branch: enumerations first, then the alarm bitmap, then the integer.\<close>

definition decodeInt :: "RegisterDefinition \<Rightarrow> int \<Rightarrow> DecodedValue" where
  "decodeInt registerDef val =
     (if option_label registerDef val \<noteq> ''''
      then StrVal (toStringInt val @ '' ('' @ option_label registerDef val @ '')'')
      else if address registerDef = 0x0100
      then (let alarms = alarm_loop val 0 []
            in StrVal (if length alarms > 0 then join '', '' alarms else ''No Alarms''))
      else NumVal (Fin (of_int val)))"

definition decodeValue :: "byte list \<Rightarrow> int \<Rightarrow> error + DecodedValue" where
  "decodeValue view registerAddr =
     (case REGISTERS registerAddr of
        Some registerDef \<Rightarrow>
          (let isFloat = (type registerDef = READ_ONLY_FLOAT \<or> type registerDef = WRITE_ONLY_FLOAT)
           in if isFloat
              then (case getFloat32 view 4 of
                      Inl e \<Rightarrow> Inl e
                    | Inr val \<Rightarrow> Inr (NumVal (parseFloat_toFixed2 val)))
              else (case getInt32 view 4 of
                      Inl e \<Rightarrow> Inl e
                    | Inr val \<Rightarrow> Inr (decodeInt registerDef val)))
      | None \<Rightarrow>
          (case getUint32 view 4 of
             Inl e \<Rightarrow> Inl e
           | Inr u \<Rightarrow> Inr (StrVal (''Unknown Reg: 0x'' @ toUpperCase (toStringRadix 16 u)))))"

definition hexByte :: "byte \<Rightarrow> string" where
  "hexByte b = toUpperCase (padStart 2 (CHR ''0'') (toStringRadix 16 (uint b)))"

text \<open>
  \<^verbatim>\<open>new DataView(dataBytes.buffer)\<close> is a view of the whole buffer of the array, from
  the buffer's first byte, whatever the offset and the length of the array; only the
  hexadecimal text is made from the array itself.
\<close>

definition decodeFrame :: "int \<Rightarrow> Uint8Array \<Rightarrow> error + DecodedFrame" where
  "decodeFrame ident dataBytes =
     (let view = buffer dataBytes;
          idParts = parseFrameId ident
      in case getUint8 view 0 of Inl e \<Rightarrow> Inl e | Inr returnCode \<Rightarrow>
         (case getUint16 view 2 of Inl e \<Rightarrow> Inl e | Inr registerAddr \<Rightarrow>
         (case decodeValue view registerAddr of Inl e \<Rightarrow> Inl e | Inr dv \<Rightarrow>
           Inr \<lparr>mxrId = mxrId idParts,
                moduleType = moduleType idParts,
                dstAddr = dstAddr idParts,
                srcAddr = srcAddr idParts,
                register = registerAddr,
                rawPayloadHex = join '' '' (map hexByte (Array_from dataBytes)),
                decodedValue = dv,
                isError = fst (returnCodeStatus returnCode),
                errorDescription = snd (returnCodeStatus returnCode)\<rparr>)))"

section \<open>The identifier round trip\<close>

lemma byte_mask:
  assumes "0 \<le> d" "d \<le> 255"
  shows "(word_of_int d :: 32 word) AND mask 8 = word_of_int d"
proof -
  have "take_bit 8 d = d" using assms by (simp add: take_bit_int_eq_self)
  then show ?thesis by (simp add: and_mask_wi)
qed

lemma sint_byte:
  assumes "0 \<le> d" "d \<le> 255"
  shows "sint (word_of_int d :: 32 word) = d"
proof -
  have "signed_take_bit 31 d = d"
    using assms by (simp add: signed_take_bit_int_eq_self)
  then show ?thesis by (simp add: sint_sbintrunc')
qed

text \<open>The four fields do not overlap: each shift and mask finds its own field again.\<close>

lemma id_fields:
  fixes a b c e :: "32 word"
  defines "X \<equiv> push_bit 24 (a AND mask 5) OR push_bit 16 (b AND mask 8)
                 OR push_bit 8 (c AND mask 8) OR (e AND mask 8)"
  shows "signed_drop_bit 24 X AND mask 5 = a AND mask 5"
    and "signed_drop_bit 16 X AND mask 8 = b AND mask 8"
    and "signed_drop_bit 8 X AND mask 8 = c AND mask 8"
    and "X AND mask 8 = e AND mask 8"
  unfolding X_def by (rule bit_word_eqI; auto simp: bit_simps)+

lemma build_word:
  "buildFrameId d (Some s) =
     uint (push_bit 24 (ToInt32 MXR_ID_DEFAULT AND mask 5)
           OR push_bit 16 (ToInt32 MODULE_TYPE_FIXED AND mask 8)
           OR push_bit 8 (ToInt32 d AND mask 8) OR (ToInt32 s AND mask 8))"
  by (simp add: buildFrameId_def Let_def mask_eq_exp_minus_1 ac_simps)

text \<open>
  Claim C1. For destination and source bytes (0 to 255 each), parsing the identifier
  that \<open>buildFrameId\<close> builds gives back manufacturer id 0x15, module type 0x81 and
  the two addresses; an omitted source is the monitor address 0xA0, and
  \<open>buildFrameId(1)\<close> is 0x158101A0.
\<close>

theorem frame_id_round_trip:
  assumes "0 \<le> dst" "dst \<le> 255" "0 \<le> src" "src \<le> 255"
  shows "parseFrameId (buildFrameId dst (Some src))
           = \<lparr>mxrId = 0x15, moduleType = 0x81, dstAddr = dst, srcAddr = src\<rparr>
         \<and> buildFrameId dst None = buildFrameId dst (Some 0xA0)
         \<and> buildFrameId 1 None = 0x158101A0"
proof -
  have m5: "(0x1F :: 32 word) = mask 5" and m8: "(0xFF :: 32 word) = mask 8"
    by (simp_all add: mask_eq_exp_minus_1)
  have fixed: "sint (ToInt32 MXR_ID_DEFAULT AND mask 5) = 0x15"
    "sint (ToInt32 MODULE_TYPE_FIXED AND mask 8) = 0x81"
    by (simp_all add: ToInt32_def MXR_ID_DEFAULT_def MODULE_TYPE_FIXED_def mask_eq_exp_minus_1)
  have args: "sint (ToInt32 dst AND mask 8) = dst" "sint (ToInt32 src AND mask 8) = src"
    using assms by (simp_all add: ToInt32_def byte_mask sint_byte)
  have "parseFrameId (buildFrameId dst (Some src))
           = \<lparr>mxrId = 0x15, moduleType = 0x81, dstAddr = dst, srcAddr = src\<rparr>"
    unfolding build_word parseFrameId_def m5 m8
    by (simp only: ToInt32_def word_of_int_uint id_fields fixed [unfolded ToInt32_def]
        args [unfolded ToInt32_def])
  moreover have "buildFrameId dst None = buildFrameId dst (Some 0xA0)"
    by (simp add: buildFrameId_def MONITOR_ADDR_def)
  moreover have "buildFrameId 1 None = 0x158101A0"
    by (simp add: buildFrameId_def ToInt32_def MXR_ID_DEFAULT_def MODULE_TYPE_FIXED_def
        MONITOR_ADDR_def)
  ultimately show ?thesis by simp
qed

theorem frame_id_round_trip_witness:
  "parseFrameId (buildFrameId 1 (Some 2))
     = \<lparr>mxrId = 0x15, moduleType = 0x81, dstAddr = 1, srcAddr = 2\<rparr>
   \<and> buildFrameId 1 None = buildFrameId 1 (Some 0xA0)
   \<and> buildFrameId 1 None = 0x158101A0"
  using frame_id_round_trip [of 1 2] by simp

section \<open>Decoding: what the reads do\<close>

lemma new_Uint8Array_simps [simp]:
  "buffer (new_Uint8Array bs) = bs"
  "byteOffset (new_Uint8Array bs) = 0"
  "byteLength (new_Uint8Array bs) = length bs"
  "Array_from (new_Uint8Array bs) = bs"
  "valid_array (new_Uint8Array bs)"
  by (simp_all add: new_Uint8Array_def Array_from_def valid_array_def)

text \<open>An array of 8 bytes or more has a buffer of 8 bytes or more, wherever it starts.\<close>

lemma valid_array_buffer:
  assumes "valid_array a" and "8 \<le> byteLength a"
  shows "8 \<le> length (buffer a)"
  using assms by (simp add: valid_array_def)

text \<open>With fewer than 8 bytes the read of bytes 4 to 7 fails in each of the three branches.\<close>

lemma decodeValue_short:
  assumes "length view < 8"
  shows "decodeValue view r = Inl RangeError"
  using assms
  by (simp add: decodeValue_def getFloat32_def getInt32_def getUint32_def Let_def
      split: option.splits)

lemma decodeValue_long:
  assumes "8 \<le> length view"
  shows "decodeValue view r =
     Inr (case REGISTERS r of
            Some registerDef \<Rightarrow>
              if type registerDef = READ_ONLY_FLOAT \<or> type registerDef = WRITE_ONLY_FLOAT
              then NumVal (parseFloat_toFixed2 (float32_value (word32_at view 4)))
              else decodeInt registerDef (sint (word32_at view 4))
          | None \<Rightarrow>
              StrVal (''Unknown Reg: 0x''
                      @ toUpperCase (toStringRadix 16 (uint (word32_at view 4)))))"
  using assms
  by (simp add: decodeValue_def getFloat32_def getInt32_def getUint32_def Let_def
      split: option.splits)

text \<open>The result is made of the first 8 bytes of the buffer; the array itself only gives
  the hexadecimal text.\<close>

lemma decodeFrame_short:
  assumes "length (buffer a) < 8"
  shows "decodeFrame ident a = Inl RangeError"
  using assms
  by (simp add: decodeFrame_def getUint8_def getUint16_def decodeValue_short Let_def)

lemma decodeFrame_long:
  assumes "8 \<le> length (buffer a)"
  shows "decodeFrame ident a =
     Inr \<lparr>mxrId = mxrId (parseFrameId ident),
          moduleType = moduleType (parseFrameId ident),
          dstAddr = dstAddr (parseFrameId ident),
          srcAddr = srcAddr (parseFrameId ident),
          register = uint (be16 (buffer a ! 2) (buffer a ! 3)),
          rawPayloadHex = join '' '' (map hexByte (Array_from a)),
          decodedValue = projr (decodeValue (buffer a) (uint (be16 (buffer a ! 2) (buffer a ! 3)))),
          isError = fst (returnCodeStatus (uint (buffer a ! 0))),
          errorDescription = snd (returnCodeStatus (uint (buffer a ! 0)))\<rparr>"
  using assms
  by (simp add: decodeFrame_def getUint8_def getUint16_def decodeValue_long Let_def)

lemma word32_at_4:
  "word32_at bs 4 = be32 (bs ! 4) (bs ! 5) (bs ! 6) (bs ! 7)"
  by (simp add: word32_at_def)

lemma word32_at_take: "word32_at (take 8 bs) 4 = word32_at bs 4"
  by (simp add: word32_at_def)

lemma decodeValue_take:
  assumes "8 \<le> length bs"
  shows "decodeValue (take 8 bs) r = decodeValue bs r"
  using assms by (simp add: decodeValue_long word32_at_take split: option.splits)

lemma byte_eq_uint:
  "uint (b :: byte) = 0xF2 \<longleftrightarrow> b = 0xF2"
  "uint b = 0xF1 \<longleftrightarrow> b = 0xF1"
  "uint b = 0xF0 \<longleftrightarrow> b = 0xF0"
  by (simp_all add: word_uint_eq_iff)

section \<open>The length of the payload\<close>

text \<open>
  Claim C3 says that \<open>decodeFrame\<close> rejects every payload whose length is not 8 with a
  MalformedPayload condition. The function has no length check. A payload of 9 bytes is
  decoded from its first 8 bytes, and the ninth shows in the hexadecimal text.
\<close>

theorem decode_overlong_payload_accepted:
  "byteLength (new_Uint8Array [0xF0, 0x00, 0x00, 0x01, 0x44, 0x2F, 0x00, 0x00, 0x99]) \<noteq> 8 \<and>
   decodeFrame 0x1581A002 (new_Uint8Array [0xF0, 0x00, 0x00, 0x01, 0x44, 0x2F, 0x00, 0x00, 0x99]) =
     Inr \<lparr>mxrId = 0x15, moduleType = 0x81, dstAddr = 0xA0, srcAddr = 0x02,
          register = 0x0001, rawPayloadHex = ''F0 00 00 01 44 2F 00 00 99'',
          decodedValue = NumVal (Fin 700), isError = False, errorDescription = ''''\<rparr>"
  by code_simp

text \<open>
  Claim C3, amended. A payload that is a buffer of its own, as \<^verbatim>\<open>new Uint8Array\<close> makes it
  from a list of bytes, fails with the \<open>RangeError\<close> of the read that would pass its end
  when it has fewer than 8 bytes; when it has 8 bytes or more it is decoded, and apart
  from the hexadecimal text the result is that of its first 8 bytes. A payload of exactly
  8 bytes never fails, in whatever buffer it lies.
\<close>

theorem decodeFrame_payload_length:
  "(valid_array a \<and> byteLength a = 8 \<longrightarrow> (\<exists>f. decodeFrame ident a = Inr f)) \<and>
   (length bs < 8 \<longrightarrow> decodeFrame ident (new_Uint8Array bs) = Inl RangeError) \<and>
   (8 \<le> length bs \<longrightarrow>
      (\<exists>f. decodeFrame ident (new_Uint8Array bs) = Inr f \<and>
           decodeFrame ident (new_Uint8Array (take 8 bs)) =
             Inr (f\<lparr>rawPayloadHex := join '' '' (map hexByte (take 8 bs))\<rparr>)))"
proof (intro conjI impI)
  assume "valid_array a \<and> byteLength a = 8"
  then have "8 \<le> length (buffer a)" by (simp add: valid_array_buffer)
  from decodeFrame_long [OF this] show "\<exists>f. decodeFrame ident a = Inr f" by blast
next
  assume "length bs < 8"
  then show "decodeFrame ident (new_Uint8Array bs) = Inl RangeError"
    by (simp add: decodeFrame_short)
next
  assume long: "8 \<le> length bs"
  then have whole: "8 \<le> length (buffer (new_Uint8Array bs))"
    and first: "8 \<le> length (buffer (new_Uint8Array (take 8 bs)))" by simp_all
  from decodeFrame_long [OF whole, of ident] decodeFrame_long [OF first, of ident]
  show "\<exists>f. decodeFrame ident (new_Uint8Array bs) = Inr f \<and>
           decodeFrame ident (new_Uint8Array (take 8 bs)) =
             Inr (f\<lparr>rawPayloadHex := join '' '' (map hexByte (take 8 bs))\<rparr>)"
    using long by (simp add: decodeValue_take)
qed

theorem decodeFrame_payload_length_witness:
  "(\<exists>f. decodeFrame 0x1581A002
          \<lparr>buffer = [0xF2, 0x00, 0x01, 0x01, 0x00, 0x00, 0x00, 0x07,
                     0xF0, 0x00, 0x00, 0x01, 0x44, 0x2F, 0x00, 0x00],
           byteOffset = 8, byteLength = 8\<rparr> = Inr f) \<and>
   decodeFrame 0x1581A002 (new_Uint8Array [0xF0, 0x00, 0x00, 0x01, 0x44, 0x2F, 0x00])
     = Inl RangeError \<and>
   (\<exists>f. decodeFrame 0x1581A002
          (new_Uint8Array [0xF0, 0x00, 0x00, 0x01, 0x44, 0x2F, 0x00, 0x00, 0x99]) = Inr f \<and>
        decodeFrame 0x1581A002
          (new_Uint8Array (take 8 [0xF0, 0x00, 0x00, 0x01, 0x44, 0x2F, 0x00, 0x00, 0x99])) =
          Inr (f\<lparr>rawPayloadHex :=
                   join '' ''
                     (map hexByte (take 8 [0xF0, 0x00, 0x00, 0x01, 0x44, 0x2F, 0x00, 0x00, 0x99]))\<rparr>))"
proof -
  let ?window = "\<lparr>buffer = [0xF2, 0x00, 0x01, 0x01, 0x00, 0x00, 0x00, 0x07,
                             0xF0, 0x00, 0x00, 0x01, 0x44, 0x2F, 0x00, 0x00 :: byte],
                   byteOffset = 8, byteLength = 8\<rparr>"
  have window: "valid_array ?window \<and> byteLength ?window = 8"
    by (simp add: valid_array_def)
  have short: "length [0xF0, 0x00, 0x00, 0x01, 0x44, 0x2F, 0x00 :: byte] < 8"
    by simp
  have long: "8 \<le> length [0xF0, 0x00, 0x00, 0x01, 0x44, 0x2F, 0x00, 0x00, 0x99 :: byte]"
    by simp
  from decodeFrame_payload_length [of ?window "0x1581A002" "[]"]
    decodeFrame_payload_length
      [of ?window "0x1581A002" "[0xF0, 0x00, 0x00, 0x01, 0x44, 0x2F, 0x00]"]
    decodeFrame_payload_length
      [of ?window "0x1581A002" "[0xF0, 0x00, 0x00, 0x01, 0x44, 0x2F, 0x00, 0x00, 0x99]"]
    window short long
  show ?thesis by blast
qed

section \<open>The return code\<close>

text \<open>For a payload that is a buffer of its own, byte 0 of the payload decides the error
  flag and the description, whatever the register.\<close>

lemma own_buffer_return_code:
  assumes "length bs = 8"
  shows "\<exists>f. decodeFrame ident (new_Uint8Array bs) = Inr f \<and>
           (isError f \<longleftrightarrow> bs ! 0 = 0xF2) \<and>
           errorDescription f =
             (if bs ! 0 = 0xF2 then ''F2: Failure, discard frame''
              else if bs ! 0 = 0xF1 then ''F1: Forced to default value''
              else '''')"
proof -
  have "8 \<le> length (buffer (new_Uint8Array bs))" using assms by simp
  from decodeFrame_long [OF this, of ident] show ?thesis
    by (simp add: returnCodeStatus_def byte_eq_uint)
qed

text \<open>
  Claim C4. For every 8-byte payload the error flag is set exactly when byte 0 of the
  payload is 0xF2, with the description "F2: Failure, discard frame"; 0xF1 gives no
  error and the description "F1: Forced to default value"; every other byte 0 gives no
  error and the empty description. The code reads byte 0 of the buffer of the array
  instead: the 8-byte payload F0 00 00 01 44 2F 00 00 that lies at offset 8 of a buffer
  beginning with F2 is reported as an error, while the hexadecimal text shows the
  payload itself.
\<close>

theorem return_code_read_from_buffer:
  "valid_array \<lparr>buffer = [0xF2, 0x00, 0x01, 0x01, 0x00, 0x00, 0x00, 0x07,
                          0xF0, 0x00, 0x00, 0x01, 0x44, 0x2F, 0x00, 0x00],
                byteOffset = 8, byteLength = 8\<rparr>
   \<and> Array_from \<lparr>buffer = [0xF2, 0x00, 0x01, 0x01, 0x00, 0x00, 0x00, 0x07,
                            0xF0, 0x00, 0x00, 0x01, 0x44, 0x2F, 0x00, 0x00],
                  byteOffset = 8, byteLength = 8\<rparr>
       = [0xF0, 0x00, 0x00, 0x01, 0x44, 0x2F, 0x00, 0x00]
   \<and> decodeFrame 0x1581A002
         \<lparr>buffer = [0xF2, 0x00, 0x01, 0x01, 0x00, 0x00, 0x00, 0x07,
                    0xF0, 0x00, 0x00, 0x01, 0x44, 0x2F, 0x00, 0x00],
          byteOffset = 8, byteLength = 8\<rparr>
       = Inr \<lparr>mxrId = 0x15, moduleType = 0x81, dstAddr = 0xA0, srcAddr = 0x02,
              register = 0x0101, rawPayloadHex = ''F0 00 00 01 44 2F 00 00'',
              decodedValue = StrVal ''7 (Running)'', isError = True,
              errorDescription = ''F2: Failure, discard frame''\<rparr>"
  by code_simp

text \<open>
  Claim C10. Whenever the error flag of a decoded 8-byte payload is set, the
  description is "F2: Failure, discard frame", which is not empty. This holds in
  whatever buffer the payload lies: flag and description come from the same byte.
\<close>

theorem error_flag_has_description:
  assumes "valid_array a" and "byteLength a = 8"
  shows "\<exists>f. decodeFrame ident a = Inr f \<and>
           (isError f \<longrightarrow>
              errorDescription f = ''F2: Failure, discard frame'' \<and> errorDescription f \<noteq> '''')"
proof -
  have "8 \<le> length (buffer a)" using assms by (simp add: valid_array_buffer)
  from decodeFrame_long [OF this, of ident] show ?thesis
    by (simp add: returnCodeStatus_def byte_eq_uint)
qed

theorem error_flag_has_description_witness:
  "\<exists>f. decodeFrame 0x1581A002
         (new_Uint8Array [0xF2, 0x00, 0x01, 0x01, 0x00, 0x00, 0x00, 0x07]) = Inr f \<and>
       isError f \<and> errorDescription f = ''F2: Failure, discard frame''"
proof -
  let ?a = "new_Uint8Array [0xF2, 0x00, 0x01, 0x01, 0x00, 0x00, 0x00, 0x07]"
  have valid: "valid_array ?a" and len: "byteLength ?a = 8"
    by simp_all
  have flag: "decodeFrame 0x1581A002 ?a = Inr f \<Longrightarrow> isError f" for f
    using decodeFrame_long [of ?a "0x1581A002"]
    by (auto simp: returnCodeStatus_def)
  from error_flag_has_description [OF valid len, of "0x1581A002"] flag show ?thesis
    by blast
qed

section \<open>Registers outside the table\<close>

text \<open>For a payload that is a buffer of its own, a register that the table does not have
  gives the text "Unknown Reg: 0x" followed by bytes 4 to 7 as an unsigned 32-bit number
  in upper-case hexadecimal.\<close>

lemma own_buffer_unknown_register:
  assumes "length bs = 8"
    and "REGISTERS (uint (be16 (bs ! 2) (bs ! 3))) = None"
  shows "\<exists>f. decodeFrame ident (new_Uint8Array bs) = Inr f \<and>
           register f = uint (be16 (bs ! 2) (bs ! 3)) \<and>
           decodedValue f =
             StrVal (''Unknown Reg: 0x''
                     @ toUpperCase
                         (toStringRadix 16 (uint (be32 (bs ! 4) (bs ! 5) (bs ! 6) (bs ! 7)))))"
proof -
  have long: "8 \<le> length (buffer (new_Uint8Array bs))" using assms(1) by simp
  show ?thesis
    unfolding decodeFrame_long [OF long] decodeValue_long [OF long]
    using assms(2) by (simp add: word32_at_4)
qed

text \<open>
  Claim C8. When bytes 2 and 3 of an 8-byte payload name a register that the table does
  not have, \<open>decodeFrame\<close> still returns, and the decoded value is the text
  "Unknown Reg: 0x" followed by bytes 4 to 7 of the payload in hexadecimal. The code
  reads the register and the value from the start of the buffer of the array instead:
  the 8-byte payload 00 00 99 99 AB 00 00 07, which names the unknown register 0x9999
  and lies at offset 8 of a buffer beginning with a Status frame, is decoded as register
  0x0101 with the value "7 (Running)".
\<close>

theorem unknown_register_read_from_buffer:
  "valid_array \<lparr>buffer = [0xF0, 0x00, 0x01, 0x01, 0x00, 0x00, 0x00, 0x07,
                          0x00, 0x00, 0x99, 0x99, 0xAB, 0x00, 0x00, 0x07],
                byteOffset = 8, byteLength = 8\<rparr>
   \<and> Array_from \<lparr>buffer = [0xF0, 0x00, 0x01, 0x01, 0x00, 0x00, 0x00, 0x07,
                            0x00, 0x00, 0x99, 0x99, 0xAB, 0x00, 0x00, 0x07],
                  byteOffset = 8, byteLength = 8\<rparr>
       = [0x00, 0x00, 0x99, 0x99, 0xAB, 0x00, 0x00, 0x07]
   \<and> REGISTERS 0x9999 = None
   \<and> decodeFrame 0x1581A002
         \<lparr>buffer = [0xF0, 0x00, 0x01, 0x01, 0x00, 0x00, 0x00, 0x07,
                    0x00, 0x00, 0x99, 0x99, 0xAB, 0x00, 0x00, 0x07],
          byteOffset = 8, byteLength = 8\<rparr>
       = Inr \<lparr>mxrId = 0x15, moduleType = 0x81, dstAddr = 0xA0, srcAddr = 0x02,
              register = 0x0101, rawPayloadHex = ''00 00 99 99 AB 00 00 07'',
              decodedValue = StrVal ''7 (Running)'', isError = False,
              errorDescription = ''''\<rparr>
   \<and> decodeFrame 0x1581A002 (new_Uint8Array [0x00, 0x00, 0x99, 0x99, 0xAB, 0x00, 0x00, 0x07])
       = Inr \<lparr>mxrId = 0x15, moduleType = 0x81, dstAddr = 0xA0, srcAddr = 0x02,
              register = 0x9999, rawPayloadHex = ''00 00 99 99 AB 00 00 07'',
              decodedValue = StrVal ''Unknown Reg: 0xAB000007'', isError = False,
              errorDescription = ''''\<rparr>"
  by code_simp

section \<open>The literal frame of the specification\<close>

text \<open>
  Claim C9. Identifier 0x1581A002 with the payload made of the bytes
  F0 00 00 01 44 2F 00 00 decodes to register 0x0001, the float register "Output
  Voltage"; bytes 44 2F 00 00 are the binary32 value 700, which is also its rounding to
  two decimals; return code 0xF0 sets no error.
\<close>

theorem literal_output_voltage_frame:
  "decodeFrame 0x1581A002 (new_Uint8Array [0xF0, 0x00, 0x00, 0x01, 0x44, 0x2F, 0x00, 0x00]) =
     Inr \<lparr>mxrId = 0x15, moduleType = 0x81, dstAddr = 0xA0, srcAddr = 0x02,
          register = 0x0001, rawPayloadHex = ''F0 00 00 01 44 2F 00 00'',
          decodedValue = NumVal (Fin 700), isError = False, errorDescription = ''''\<rparr>
   \<and> map_option name (REGISTERS 0x0001) = Some ''Output Voltage''
   \<and> map_option type (REGISTERS 0x0001) = Some READ_ONLY_FLOAT
   \<and> float32_value (be32 0x44 0x2F 0x00 0x00) = Fin 700"
  by code_simp

section \<open>The alarm bitmap\<close>

text \<open>The test \<^verbatim>\<open>(val >> i) & 1\<close> of the loop reads bit \<open>i\<close>.\<close>

lemma shift_test_bit:
  fixes w :: "32 word"
  assumes "i < 32"
  shows "(signed_drop_bit i w AND 1 \<noteq> 0) = bit w i"
proof -
  have "signed_drop_bit i w AND 1 = of_bool (bit (signed_drop_bit i w) 0)"
    by (simp add: and_one_eq bit_0 mod_2_eq_odd)
  also have "bit (signed_drop_bit i w) 0 = bit w i"
    using assms by (simp add: bit_signed_drop_bit_iff)
  finally show ?thesis by simp
qed

text \<open>The loop appends the labels of the set bits from \<open>i\<close> upwards, in ascending order.\<close>

lemma alarm_loop_labels:
  "i \<le> 32 \<Longrightarrow>
   alarm_loop val i alarms
     = alarms @ map ((!) ALARM_BITS) (filter (bit (ToInt32 val)) [i..<32])"
proof (induction val i alarms rule: alarm_loop.induct)
  case (1 val i alarms)
  show ?case
  proof (cases "i < 32")
    case True
    then have range: "[i..<32] = i # [i + 1..<32]"
      by (simp add: upt_conv_Cons)
    from True have "i + 1 \<le> 32" by simp
    from "1.IH" [OF True this] True show ?thesis
      by (subst alarm_loop.simps) (simp add: range shift_test_bit)
  next
    case False
    with "1.prems" have "i = 32" by simp
    then show ?thesis by (subst alarm_loop.simps) simp
  qed
qed

lemma alarm_register:
  "REGISTERS 0x0100 = Some (mkreg 0x0100 ''Alarm Info'' READ_ONLY_INT None
                              ''Bitmap of alarms (See Table 2.1)'' None)"
  by (simp add: REGISTERS_def REGISTER_LIST_def)

lemma decodeInt_alarms:
  "decodeInt (mkreg 0x0100 n READ_ONLY_INT u d None) (sint (w :: 32 word)) =
     (let labels = map ((!) ALARM_BITS) (filter (bit w) [0..<32])
      in StrVal (if labels = [] then ''No Alarms'' else join '', '' labels))"
  by (simp add: decodeInt_def option_label_def mkreg_def alarm_loop_labels ToInt32_def Let_def
      del: upt_rec_numeral)


text \<open>For a payload that is a buffer of its own and names register 0x0100, the decoded
  value is made of the labels of the bits set in bytes 4 to 7, in ascending order.\<close>

lemma own_buffer_alarm_bitmap:
  assumes "length bs = 8"
    and "be16 (bs ! 2) (bs ! 3) = 0x0100"
  shows "\<exists>f. decodeFrame ident (new_Uint8Array bs) = Inr f \<and>
           decodedValue f =
             (let labels = map ((!) ALARM_BITS)
                             (filter (bit (be32 (bs ! 4) (bs ! 5) (bs ! 6) (bs ! 7))) [0..<32])
              in StrVal (if labels = [] then ''No Alarms'' else join '', '' labels))"
proof -
  have long: "8 \<le> length (buffer (new_Uint8Array bs))" using assms(1) by simp
  have reg: "uint (be16 (bs ! 2) (bs ! 3)) = 0x0100"
    by (simp add: assms(2))
  show ?thesis
    unfolding decodeFrame_long [OF long] decodeValue_long [OF long]
    by (simp add: reg alarm_register word32_at_4 mkreg_def decodeInt_alarms [unfolded mkreg_def]
        del: upt_rec_numeral)
qed

text \<open>
  Claim C6. For every 8-byte payload whose bytes 2 and 3 are register 0x0100, the decoded
  value is made of the Alarm Bit Table labels of the bits set in bytes 4 to 7 (bit
  \<open>i\<close>, label \<open>i\<close>), in ascending order of the bits and joined with ", ", and it is
  "No Alarms" when no bit is set; the value 0b101 gives "Input Overvoltage, Output
  Overvoltage". The code reads the register and the bitmap from the start of the buffer
  of the array instead: the 8-byte payload F0 00 01 00 00 00 00 05, which names register
  0x0100 with the bitmap 0b101 and lies at offset 8 of a buffer beginning with a Status
  frame, is decoded as register 0x0101 with the value "7 (Running)"; the same bytes as
  a buffer of their own give the two alarm labels.
\<close>

theorem alarm_bitmap_read_from_buffer:
  "valid_array \<lparr>buffer = [0xF0, 0x00, 0x01, 0x01, 0x00, 0x00, 0x00, 0x07,
                          0xF0, 0x00, 0x01, 0x00, 0x00, 0x00, 0x00, 0x05],
                byteOffset = 8, byteLength = 8\<rparr>
   \<and> Array_from \<lparr>buffer = [0xF0, 0x00, 0x01, 0x01, 0x00, 0x00, 0x00, 0x07,
                            0xF0, 0x00, 0x01, 0x00, 0x00, 0x00, 0x00, 0x05],
                  byteOffset = 8, byteLength = 8\<rparr>
       = [0xF0, 0x00, 0x01, 0x00, 0x00, 0x00, 0x00, 0x05]
   \<and> decodeFrame 0x1581A002
         \<lparr>buffer = [0xF0, 0x00, 0x01, 0x01, 0x00, 0x00, 0x00, 0x07,
                    0xF0, 0x00, 0x01, 0x00, 0x00, 0x00, 0x00, 0x05],
          byteOffset = 8, byteLength = 8\<rparr>
       = Inr \<lparr>mxrId = 0x15, moduleType = 0x81, dstAddr = 0xA0, srcAddr = 0x02,
              register = 0x0101, rawPayloadHex = ''F0 00 01 00 00 00 00 05'',
              decodedValue = StrVal ''7 (Running)'', isError = False,
              errorDescription = ''''\<rparr>
   \<and> decodeFrame 0x1581A002 (new_Uint8Array [0xF0, 0x00, 0x01, 0x00, 0x00, 0x00, 0x00, 0x05])
       = Inr \<lparr>mxrId = 0x15, moduleType = 0x81, dstAddr = 0xA0, srcAddr = 0x02,
              register = 0x0100, rawPayloadHex = ''F0 00 01 00 00 00 00 05'',
              decodedValue = StrVal ''Input Overvoltage, Output Overvoltage'',
              isError = False, errorDescription = ''''\<rparr>"
  by code_simp

section \<open>Enumerated values\<close>

text \<open>No label of the register table is empty, so every label passes the test of the
  source.\<close>

lemma table_labels_nonempty:
  assumes "REGISTERS r = Some rd"
    and "options rd = Some opts"
    and "map_of opts v = Some l"
  shows "l \<noteq> ''''"
proof -
  from assms(1) have "(r, rd) \<in> set REGISTER_LIST"
    unfolding REGISTERS_def by (rule map_of_SomeD)
  with assms(2) have "opts = STATUS_OPTIONS \<or> opts = CONTROL_OPTIONS"
    by (auto simp: REGISTER_LIST_def mkreg_def)
  moreover from assms(3) have "(v, l) \<in> set opts"
    by (rule map_of_SomeD)
  ultimately show ?thesis
    by (auto simp: STATUS_OPTIONS_def CONTROL_OPTIONS_def)
qed

lemma option_label_Some:
  assumes "options rd = Some opts" and "map_of opts v = Some l"
  shows "option_label rd v = l"
  using assms by (simp add: option_label_def)


text \<open>For a payload that is a buffer of its own, a label of an integer register for the
  value of bytes 4 to 7 gives the text "<int> (<label>)"; and whatever the address of a
  register definition, a label decides the result of the integer branch.\<close>

lemma own_buffer_option_label:
  assumes "length bs = 8"
    and "REGISTERS (uint (be16 (bs ! 2) (bs ! 3))) = Some rd"
    and "type rd = READ_ONLY_INT \<or> type rd = WRITE_ONLY_INT"
    and "options rd = Some opts"
    and "map_of opts (sint (be32 (bs ! 4) (bs ! 5) (bs ! 6) (bs ! 7))) = Some l"
  shows "\<exists>f. decodeFrame ident (new_Uint8Array bs) = Inr f \<and>
           decodedValue f =
             StrVal (toStringInt (sint (be32 (bs ! 4) (bs ! 5) (bs ! 6) (bs ! 7)))
                     @ '' ('' @ l @ '')'')"
proof -
  have long: "8 \<le> length (buffer (new_Uint8Array bs))" using assms(1) by simp
  have label: "option_label rd (sint (be32 (bs ! 4) (bs ! 5) (bs ! 6) (bs ! 7))) = l"
    using assms(4,5) by (rule option_label_Some)
  have nonempty: "l \<noteq> ''''"
    using assms(2,4,5) by (rule table_labels_nonempty)
  have kind: "\<not> (type rd = READ_ONLY_FLOAT \<or> type rd = WRITE_ONLY_FLOAT)"
    using assms(3) by auto
  show ?thesis
    unfolding decodeFrame_long [OF long] decodeValue_long [OF long]
    using kind nonempty assms(2) by (simp add: word32_at_4 decodeInt_def label)
qed

lemma option_label_first:
  "option_label rd v \<noteq> '''' \<Longrightarrow>
     decodeInt rd v = StrVal (toStringInt v @ '' ('' @ option_label rd v @ '')'')"
  by (simp add: decodeInt_def)

text \<open>
  Claim C7. For every 8-byte payload whose register is of an integer kind and has an
  option label for the signed 32-bit value of bytes 4 to 7, the decoded value is the
  text "<int> (<label>)", before the alarm bitmap and the plain integer are considered;
  register 0x0101 with the value 7 gives "7 (Running)". The code reads the register and
  the value from the start of the buffer of the array instead: the 8-byte payload
  F0 00 01 01 00 00 00 07, which names register 0x0101 with the value 7 and lies at
  offset 8 of a buffer beginning with a frame for the unknown register 0x9999, is
  decoded as "Unknown Reg: 0xAB000007"; the same bytes as a buffer of their own give
  "7 (Running)".
\<close>

theorem option_label_read_from_buffer:
  "valid_array \<lparr>buffer = [0x00, 0x00, 0x99, 0x99, 0xAB, 0x00, 0x00, 0x07,
                          0xF0, 0x00, 0x01, 0x01, 0x00, 0x00, 0x00, 0x07],
                byteOffset = 8, byteLength = 8\<rparr>
   \<and> Array_from \<lparr>buffer = [0x00, 0x00, 0x99, 0x99, 0xAB, 0x00, 0x00, 0x07,
                            0xF0, 0x00, 0x01, 0x01, 0x00, 0x00, 0x00, 0x07],
                  byteOffset = 8, byteLength = 8\<rparr>
       = [0xF0, 0x00, 0x01, 0x01, 0x00, 0x00, 0x00, 0x07]
   \<and> map_option options (REGISTERS 0x0101) = Some (Some STATUS_OPTIONS)
   \<and> map_of STATUS_OPTIONS 7 = Some ''Running''
   \<and> decodeFrame 0x1581A002
         \<lparr>buffer = [0x00, 0x00, 0x99, 0x99, 0xAB, 0x00, 0x00, 0x07,
                    0xF0, 0x00, 0x01, 0x01, 0x00, 0x00, 0x00, 0x07],
          byteOffset = 8, byteLength = 8\<rparr>
       = Inr \<lparr>mxrId = 0x15, moduleType = 0x81, dstAddr = 0xA0, srcAddr = 0x02,
              register = 0x9999, rawPayloadHex = ''F0 00 01 01 00 00 00 07'',
              decodedValue = StrVal ''Unknown Reg: 0xAB000007'', isError = False,
              errorDescription = ''''\<rparr>
   \<and> decodeFrame 0x1581A002 (new_Uint8Array [0xF0, 0x00, 0x01, 0x01, 0x00, 0x00, 0x00, 0x07])
       = Inr \<lparr>mxrId = 0x15, moduleType = 0x81, dstAddr = 0xA0, srcAddr = 0x02,
              register = 0x0101, rawPayloadHex = ''F0 00 01 01 00 00 00 07'',
              decodedValue = StrVal ''7 (Running)'', isError = False,
              errorDescription = ''''\<rparr>"
  by code_simp

section \<open>Binary32: what is stored is the nearest value\<close>

subsection \<open>The number of binary digits\<close>

lemma bit_length_le: "n < 2 ^ k \<Longrightarrow> bit_length n \<le> k"
proof (induction k arbitrary: n)
  case 0
  then show ?case by (subst bit_length.simps) simp
next
  case (Suc k)
  from Suc.prems have "n div 2 < 2 ^ k" by simp
  from Suc.IH [OF this] show ?case by (subst bit_length.simps) simp
qed

lemma bit_length_gt: "2 ^ k \<le> n \<Longrightarrow> k < bit_length n"
proof (induction k arbitrary: n)
  case 0
  then have "0 < n" by simp
  then show ?case by (subst bit_length.simps) simp
next
  case (Suc k)
  from Suc.prems have "2 ^ k \<le> n div 2" by simp
  moreover have "(0 :: int) < 2 ^ Suc k" by simp
  with Suc.prems have "0 < n" by linarith
  ultimately show ?case using Suc.IH [of "n div 2"] by (subst bit_length.simps) simp
qed

lemma bit_length_eq:
  assumes "2 ^ k \<le> n" and "n < 2 ^ Suc k"
  shows "bit_length n = Suc k"
  using bit_length_le [OF assms(2)] bit_length_gt [OF assms(1)] by simp

lemma bit_length_upper: "n < 2 ^ bit_length n"
proof (rule ccontr)
  assume "\<not> n < 2 ^ bit_length n"
  then have "2 ^ bit_length n \<le> n" by simp
  from bit_length_gt [OF this] show False by simp
qed

lemma bit_length_lower:
  assumes "0 < bit_length n"
  shows "2 ^ (bit_length n - 1) \<le> n"
proof (rule ccontr)
  assume "\<not> 2 ^ (bit_length n - 1) \<le> n"
  then have "n < 2 ^ (bit_length n - 1)" by simp
  from bit_length_le [OF this] assms show False by simp
qed

subsection \<open>Rounding to the nearest integer, ties to even\<close>

lemma round_half_even_of_int: "round_half_even (of_int z) = z"
  by (simp add: round_half_even_def)

lemma round_half_even_cases:
  "(round_half_even x = \<lfloor>x\<rfloor> \<and> x - of_int \<lfloor>x\<rfloor> \<le> 1 / 2) \<or>
   (round_half_even x = \<lfloor>x\<rfloor> + 1 \<and> 1 / 2 \<le> x - of_int \<lfloor>x\<rfloor>)"
  by (auto simp: round_half_even_def Let_def)

lemma int_below_or_above:
  fixes j f :: int
  shows "(of_int j :: rat) \<le> of_int f \<or> of_int f + 1 \<le> (of_int j :: rat)"
proof (cases "j \<le> f")
  case True
  then show ?thesis by simp
next
  case False
  then have "f + 1 \<le> j" by simp
  then have "(of_int (f + 1) :: rat) \<le> of_int j" by (simp only: of_int_le_iff)
  then show ?thesis by simp
qed

lemma round_half_even_nearest:
  "\<bar>of_int (round_half_even x) - x\<bar> \<le> \<bar>of_int j - x\<bar>"
proof -
  define F :: rat where "F = of_int \<lfloor>x\<rfloor>"
  define J :: rat where "J = of_int j"
  have lo: "F \<le> x" and hi: "x < F + 1"
    unfolding F_def by linarith+
  have away: "J \<le> F \<or> F + 1 \<le> J"
    unfolding F_def J_def by (rule int_below_or_above)
  from round_half_even_cases [of x]
  consider (down) "round_half_even x = \<lfloor>x\<rfloor>" "x - F \<le> 1 / 2"
    | (up) "round_half_even x = \<lfloor>x\<rfloor> + 1" "1 / 2 \<le> x - F"
    unfolding F_def by blast
  then have "\<bar>of_int (round_half_even x) - x\<bar> \<le> \<bar>J - x\<bar>"
  proof cases
    case down
    have "\<bar>F - x\<bar> \<le> \<bar>J - x\<bar>"
      using away
    proof
      assume "J \<le> F" with lo hi down(2) show ?thesis by linarith
    next
      assume "F + 1 \<le> J" with lo hi down(2) show ?thesis by linarith
    qed
    then show ?thesis by (simp only: down(1) F_def)
  next
    case up
    have "\<bar>F + 1 - x\<bar> \<le> \<bar>J - x\<bar>"
      using away
    proof
      assume "J \<le> F" with lo hi up(2) show ?thesis by linarith
    next
      assume "F + 1 \<le> J" with lo hi up(2) show ?thesis by linarith
    qed
    then show ?thesis by (simp add: up(1) F_def)
  qed
  then show ?thesis by (simp only: J_def)
qed

lemma round_half_even_tie:
  assumes "j \<noteq> round_half_even x"
    and "\<bar>of_int j - x\<bar> = \<bar>of_int (round_half_even x) - x\<bar>"
  shows "even (round_half_even x)"
proof -
  define f where "f = \<lfloor>x\<rfloor>"
  define F :: rat where "F = of_int f"
  define J :: rat where "J = of_int j"
  define d where "d = x - F"
  have lo: "F \<le> x" and hi: "x < F + 1"
    unfolding F_def f_def by linarith+
  have half: "d = 1 / 2"
  proof (rule ccontr)
    assume ne: "d \<noteq> 1 / 2"
    show False
    proof (cases "d < 1 / 2")
      case True
      then have r: "round_half_even x = f"
        by (simp add: round_half_even_def Let_def f_def d_def F_def)
      with assms(1) have "j \<noteq> f" by simp
      then have "j \<le> f - 1 \<or> f + 1 \<le> j" by linarith
      then have away: "J \<le> F - 1 \<or> F + 1 \<le> J"
      proof
        assume "j \<le> f - 1"
        then have "(of_int j :: rat) \<le> of_int (f - 1)" by (simp only: of_int_le_iff)
        then show ?thesis by (simp add: J_def F_def)
      next
        assume "f + 1 \<le> j"
        then have "(of_int (f + 1) :: rat) \<le> of_int j" by (simp only: of_int_le_iff)
        then show ?thesis by (simp add: J_def F_def)
      qed
      from assms(2) have eq: "\<bar>J - x\<bar> = \<bar>F - x\<bar>"
        by (simp only: r J_def F_def)
      from away show False
      proof
        assume "J \<le> F - 1" with eq True lo hi show False unfolding d_def by linarith
      next
        assume "F + 1 \<le> J" with eq True lo hi show False unfolding d_def by linarith
      qed
    next
      case False
      with ne have big: "1 / 2 < d" by simp
      then have r: "round_half_even x = f + 1"
        by (simp add: round_half_even_def Let_def f_def d_def F_def)
      with assms(1) have "j \<noteq> f + 1" by simp
      then have "j \<le> f \<or> f + 2 \<le> j" by linarith
      then have away: "J \<le> F \<or> F + 2 \<le> J"
      proof
        assume "j \<le> f"
        then have "(of_int j :: rat) \<le> of_int f" by (simp only: of_int_le_iff)
        then show ?thesis by (simp add: J_def F_def)
      next
        assume "f + 2 \<le> j"
        then have "(of_int (f + 2) :: rat) \<le> of_int j" by (simp only: of_int_le_iff)
        then show ?thesis by (simp add: J_def F_def)
      qed
      from assms(2) have eq: "\<bar>J - x\<bar> = \<bar>F + 1 - x\<bar>"
        by (simp add: r J_def F_def)
      from away show False
      proof
        assume "J \<le> F" with eq big lo hi show False unfolding d_def by linarith
      next
        assume "F + 2 \<le> J" with eq big lo hi show False unfolding d_def by linarith
      qed
    qed
  qed
  then show ?thesis
    by (simp add: round_half_even_def Let_def f_def d_def F_def)
qed

lemma round_half_even_mono:
  shows round_half_even_ge: "of_int n \<le> x \<Longrightarrow> n \<le> round_half_even x"
    and round_half_even_le: "x \<le> of_int n \<Longrightarrow> round_half_even x \<le> n"
proof -
  assume "of_int n \<le> x"
  then have "n \<le> \<lfloor>x\<rfloor>" by (simp add: le_floor_iff)
  with round_half_even_cases [of x] show "n \<le> round_half_even x" by auto
next
  assume le: "x \<le> of_int n"
  show "round_half_even x \<le> n"
  proof (cases "x = of_int n")
    case True
    then show ?thesis by (simp add: round_half_even_of_int)
  next
    case False
    with le have "x < of_int n" by simp
    then have "\<lfloor>x\<rfloor> < n" by (simp add: floor_less_iff)
    with round_half_even_cases [of x] show ?thesis by auto
  qed
qed

text \<open>Just below the half before an integer the rounding stays below it; from the half
  before an even integer on it reaches it.\<close>

lemma round_half_even_below_half:
  assumes "x < of_int n - 1 / 2"
  shows "round_half_even x \<le> n - 1"
proof -
  have lo: "of_int \<lfloor>x\<rfloor> \<le> x" by linarith
  from assms lo have "(of_int \<lfloor>x\<rfloor> :: rat) < of_int n" by linarith
  then have fl: "\<lfloor>x\<rfloor> \<le> n - 1" by simp
  show ?thesis
  proof (cases "\<lfloor>x\<rfloor> = n - 1")
    case True
    with assms have "x - of_int \<lfloor>x\<rfloor> < 1 / 2" by simp
    then have "round_half_even x = \<lfloor>x\<rfloor>"
      by (simp add: round_half_even_def Let_def)
    with True show ?thesis by simp
  next
    case False
    with fl have "\<lfloor>x\<rfloor> + 1 \<le> n - 1" by simp
    with round_half_even_cases [of x] show ?thesis by auto
  qed
qed

lemma round_half_even_from_half:
  assumes "of_int n - 1 / 2 \<le> x" and "even n"
  shows "n \<le> round_half_even x"
proof -
  have hi: "x < of_int \<lfloor>x\<rfloor> + 1" by linarith
  from assms(1) hi have "(of_int n :: rat) < of_int \<lfloor>x\<rfloor> + 2" by linarith
  then have "(of_int n :: rat) < of_int (\<lfloor>x\<rfloor> + 2)" by simp
  then have "n < \<lfloor>x\<rfloor> + 2" by (simp only: of_int_less_iff)
  then have fl: "n - 1 \<le> \<lfloor>x\<rfloor>" by simp
  show ?thesis
  proof (cases "\<lfloor>x\<rfloor> = n - 1")
    case True
    with assms(1) have d: "1 / 2 \<le> x - of_int \<lfloor>x\<rfloor>" by simp
    from True assms(2) have "odd \<lfloor>x\<rfloor>" by simp
    with d have "round_half_even x = \<lfloor>x\<rfloor> + 1"
      by (auto simp: round_half_even_def Let_def)
    with True show ?thesis by simp
  next
    case False
    with fl have "n \<le> \<lfloor>x\<rfloor>" by simp
    with round_half_even_cases [of x] show ?thesis by auto
  qed
qed

subsection \<open>Rounding on the grid of a binade\<close>

text \<open>
  \<open>r\<close> is a magnitude in units of \<open>2 ^ - 149\<close> and \<open>2 ^ s0\<close> the spacing of the binary32
  values around it. Rounding \<open>r / 2 ^ s0\<close> to an integer gives a value that is at least
  as near to \<open>r\<close> as every significand of at most 24 bits times any power of two.
\<close>

lemma grid_multiple_nearest:
  fixes r :: rat and s0 :: nat and j :: int
  shows "\<bar>of_int (round_half_even (r / 2 ^ s0)) * 2 ^ s0 - r\<bar> \<le> \<bar>of_int j * 2 ^ s0 - r\<bar>"
proof -
  define g :: rat where "g = 2 ^ s0"
  define x where "x = r / g"
  have gpos: "0 < g" by (simp add: g_def)
  then have r: "r = x * g" by (simp add: x_def)
  have scale: "\<bar>of_int i * g - r\<bar> = g * \<bar>of_int i - x\<bar>" for i :: int
  proof -
    have "of_int i * g - r = g * (of_int i - x)" by (simp add: r algebra_simps)
    then show ?thesis using gpos by (simp add: abs_mult)
  qed
  have "g * \<bar>of_int (round_half_even x) - x\<bar> \<le> g * \<bar>of_int j - x\<bar>"
    using gpos round_half_even_nearest [of x j] by (simp add: mult_left_mono)
  then have "\<bar>of_int (round_half_even x) * g - r\<bar> \<le> \<bar>of_int j * g - r\<bar>"
    by (simp only: scale)
  then show ?thesis
    unfolding x_def g_def .
qed

lemma grid_multiple_tie:
  fixes r :: rat and s0 :: nat and j :: int
  assumes "of_int j * 2 ^ s0 \<noteq> of_int (round_half_even (r / 2 ^ s0)) * (2 ^ s0 :: rat)"
    and "\<bar>of_int j * 2 ^ s0 - r\<bar> = \<bar>of_int (round_half_even (r / 2 ^ s0)) * 2 ^ s0 - r\<bar>"
  shows "even (round_half_even (r / 2 ^ s0))"
proof -
  define g :: rat where "g = 2 ^ s0"
  define x where "x = r / g"
  have gpos: "0 < g" by (simp add: g_def)
  then have r: "r = x * g" by (simp add: x_def)
  have scale: "\<bar>of_int i * g - r\<bar> = g * \<bar>of_int i - x\<bar>" for i :: int
  proof -
    have "of_int i * g - r = g * (of_int i - x)" by (simp add: r algebra_simps)
    then show ?thesis using gpos by (simp add: abs_mult)
  qed
  from assms(1) have ne: "j \<noteq> round_half_even x"
    by (auto simp: x_def g_def)
  from assms(2) have "\<bar>of_int j * g - r\<bar> = \<bar>of_int (round_half_even x) * g - r\<bar>"
    unfolding x_def g_def .
  then have "g * \<bar>of_int j - x\<bar> = g * \<bar>of_int (round_half_even x) - x\<bar>"
    by (simp only: scale)
  with gpos have "\<bar>of_int j - x\<bar> = \<bar>of_int (round_half_even x) - x\<bar>" by simp
  with ne have "even (round_half_even x)" by (rule round_half_even_tie)
  then show ?thesis by (simp only: x_def g_def)
qed

lemma grid_nearest:
  fixes r :: rat and s0 k :: nat and sig :: int
  assumes lower: "0 < s0 \<Longrightarrow> 2 ^ (23 + s0) \<le> r"
    and sig: "0 \<le> sig" "sig < 2 ^ 24"
  shows "\<bar>of_int (round_half_even (r / 2 ^ s0)) * 2 ^ s0 - r\<bar> \<le> \<bar>of_int sig * 2 ^ k - r\<bar>"
    and "of_int sig * 2 ^ k \<noteq> of_int (round_half_even (r / 2 ^ s0)) * (2 ^ s0 :: rat) \<Longrightarrow>
         \<bar>of_int sig * 2 ^ k - r\<bar> = \<bar>of_int (round_half_even (r / 2 ^ s0)) * 2 ^ s0 - r\<bar> \<Longrightarrow>
         even (round_half_even (r / 2 ^ s0))"
proof -
  define c :: rat where "c = of_int (round_half_even (r / 2 ^ s0)) * 2 ^ s0"
  define y :: rat where "y = of_int sig * 2 ^ k"
  have coarse: "\<bar>c - r\<bar> < \<bar>y - r\<bar>" if "k < s0"
  proof -
    from that have pos: "0 < s0" by simp
    define lo :: rat where "lo = of_int (2 ^ 23) * 2 ^ s0"
    have lo_eq: "lo = 2 ^ (23 + s0)" by (simp add: lo_def power_add)
    with lower [OF pos] have lo_le: "lo \<le> r" by simp
    have "\<bar>c - r\<bar> \<le> \<bar>lo - r\<bar>"
      unfolding c_def lo_def by (rule grid_multiple_nearest)
    with lo_le have near: "\<bar>c - r\<bar> \<le> r - lo" by simp
    from sig(2) have "(of_int sig :: rat) < of_int (2 ^ 24)" by (simp only: of_int_less_iff)
    then have "(of_int sig :: rat) < 2 ^ 24" by simp
    then have "y < 2 ^ 24 * 2 ^ k" by (simp add: y_def)
    also have "\<dots> = 2 ^ (24 + k)" by (simp add: power_add)
    also have "\<dots> \<le> (2 :: rat) ^ (23 + s0)"
      using that by (intro power_increasing) simp_all
    finally have "y < lo" by (simp add: lo_eq)
    with lo_le near show ?thesis by linarith
  qed
  have fine: "\<exists>j :: int. y = of_int j * 2 ^ s0" if "\<not> k < s0"
  proof -
    from that have "k = (k - s0) + s0" by simp
    then have "(2 :: rat) ^ k = 2 ^ (k - s0) * 2 ^ s0" by (metis power_add)
    then have "y = of_int (sig * 2 ^ (k - s0)) * 2 ^ s0" by (simp add: y_def)
    then show ?thesis by blast
  qed
  show "\<bar>of_int (round_half_even (r / 2 ^ s0)) * 2 ^ s0 - r\<bar> \<le> \<bar>of_int sig * 2 ^ k - r\<bar>"
  proof (cases "k < s0")
    case True
    from coarse [OF True] show ?thesis by (simp add: c_def y_def)
  next
    case False
    from fine [OF False] obtain j :: int where "y = of_int j * 2 ^ s0" by blast
    with grid_multiple_nearest [of r s0 j] show ?thesis by (simp add: y_def)
  qed
  show "even (round_half_even (r / 2 ^ s0))"
    if ne: "of_int sig * 2 ^ k \<noteq> of_int (round_half_even (r / 2 ^ s0)) * (2 ^ s0 :: rat)"
      and eq: "\<bar>of_int sig * 2 ^ k - r\<bar> = \<bar>of_int (round_half_even (r / 2 ^ s0)) * 2 ^ s0 - r\<bar>"
  proof (cases "k < s0")
    case True
    from coarse [OF True] eq show ?thesis by (simp add: c_def y_def)
  next
    case False
    from fine [OF False] obtain j :: int where j: "y = of_int j * 2 ^ s0" by blast
    from ne have "of_int j * 2 ^ s0 \<noteq> of_int (round_half_even (r / 2 ^ s0)) * (2 ^ s0 :: rat)"
      by (simp add: j [symmetric] y_def)
    moreover from eq
    have "\<bar>of_int j * 2 ^ s0 - r\<bar> = \<bar>of_int (round_half_even (r / 2 ^ s0)) * 2 ^ s0 - r\<bar>"
      by (simp add: j [symmetric] y_def)
    ultimately show ?thesis by (rule grid_multiple_tie)
  qed
qed

subsection \<open>The three fields of a binary32 word\<close>

lemma float32_fraction_range:
  "0 \<le> uint ((w :: 32 word) AND 0x7FFFFF)" "uint (w AND 0x7FFFFF) < 2 ^ 23"
proof -
  have "(0x7FFFFF :: 32 word) = mask 23" by (simp add: mask_eq_exp_minus_1)
  then show "uint (w AND 0x7FFFFF) < 2 ^ 23"
    using and_mask_lt_2p [of w 23] by simp
qed simp

lemma float32_exponent_range: "unat (drop_bit 23 (w :: 32 word) AND 0xFF) < 256"
proof -
  have "(0xFF :: 32 word) = mask 8" by (simp add: mask_eq_exp_minus_1)
  then have "uint (drop_bit 23 w AND 0xFF) < 2 ^ 8"
    using and_mask_lt_2p [of "drop_bit 23 w" 8] by simp
  then have "int (unat (drop_bit 23 w AND 0xFF)) < 256"
    unfolding uint_nat by simp
  then show ?thesis by linarith
qed

lemma float32_reassemble:
  fixes w :: "32 word"
  shows "(if bit w 31 then 0x80000000 else 0)
         OR push_bit 23 (of_nat (unat (drop_bit 23 w AND 0xFF)))
         OR word_of_int (uint (w AND 0x7FFFFF)) = w"
proof -
  have masks: "(0xFF :: 32 word) = mask 8" "(0x7FFFFF :: 32 word) = mask 23"
    by (simp_all add: mask_eq_exp_minus_1)
  have "(0x80000000 :: int) = 2 ^ 31" by simp
  then have top: "bit (0x80000000 :: int) n \<longleftrightarrow> n = 31" for n
    by (simp only: bit_exp_iff) auto
  show ?thesis
    unfolding masks
    apply (rule bit_word_eqI)
    subgoal for n
      by (cases "n < 23"; cases "n = 31"; cases "bit w 31"; auto simp: bit_simps top)
    done
qed

text \<open>A word put together from a sign, a biased exponent and a fraction has these as
  its fields; its lowest bit is that of the fraction.\<close>

lemma float32_fields:
  fixes e :: nat and frac :: int and neg :: bool
  assumes e: "e < 256" and frac: "0 \<le> frac" "frac < 2 ^ 23"
  defines "w \<equiv> (if neg then 0x80000000 else 0) OR push_bit 23 (of_nat e) OR word_of_int frac
                :: 32 word"
  shows "bit w 31 \<longleftrightarrow> neg"
    and "unat (drop_bit 23 w AND 0xFF) = e"
    and "uint (w AND 0x7FFFFF) = frac"
    and "bit w 0 \<longleftrightarrow> odd frac"
proof -
  have masks: "(0xFF :: 32 word) = mask 8" "(0x7FFFFF :: 32 word) = mask 23"
    by (simp_all add: mask_eq_exp_minus_1)
  have "(0x80000000 :: int) = 2 ^ 31" by simp
  then have top: "bit (0x80000000 :: int) n \<longleftrightarrow> n = 31" for n
    by (simp only: bit_exp_iff) auto
  from e have "take_bit 8 e = e" by (simp add: take_bit_nat_eq_self)
  then have ebit: "bit e k \<Longrightarrow> k < 8" for k by (metis bit_take_bit_iff)
  from frac have "take_bit 23 frac = frac" by (simp add: take_bit_int_eq_self)
  then have fbit: "bit frac k \<Longrightarrow> k < 23" for k by (metis bit_take_bit_iff)
  have bits: "bit w n \<longleftrightarrow> (neg \<and> n = 31) \<or> (23 \<le> n \<and> n < 32 \<and> bit e (n - 23)) \<or> bit frac n"
    for n
    using fbit [of n] by (cases neg) (auto simp: w_def bit_simps top)
  show "bit w 31 \<longleftrightarrow> neg"
    using ebit [of 8] fbit [of 31] by (auto simp: bits)
  show "bit w 0 \<longleftrightarrow> odd frac"
    using bits [of 0] by (simp add: bit_0)
  have "drop_bit 23 w AND mask 8 = of_nat e"
    apply (rule bit_word_eqI)
    subgoal for n
      using ebit [of n] fbit [of "23 + n"] by (auto simp: bit_simps bits)
    done
  then have "unat (drop_bit 23 w AND 0xFF) = unat (of_nat e :: 32 word)"
    by (simp only: masks)
  also have "\<dots> = e"
    using e by (simp add: unat_of_nat)
  finally show "unat (drop_bit 23 w AND 0xFF) = e" .
  have "w AND mask 23 = word_of_int frac"
    apply (rule bit_word_eqI)
    subgoal for n
      using ebit [of "n - 23"] fbit [of n] by (auto simp: bit_simps bits)
    done
  then have "uint (w AND 0x7FFFFF) = uint (word_of_int frac :: 32 word)"
    by (simp only: masks)
  also have "\<dots> = frac"
  proof -
    from frac have "take_bit 32 frac = frac" by (simp add: take_bit_int_eq_self)
    then show ?thesis by (simp add: uint_word_of_int take_bit_eq_mod)
  qed
  finally show "uint (w AND 0x7FFFFF) = frac" .
qed

text \<open>The magnitude of every finite binary32 value is a significand of at most 24 bits
  times a power of two, in units of \<open>2 ^ - 149\<close>.\<close>

lemma finite_value_grid:
  assumes "finite_value (float32_value w) = Some y"
  shows "\<exists>sig k. 0 \<le> sig \<and> sig < 2 ^ 24 \<and> \<bar>y\<bar> * 2 ^ 149 = of_int sig * 2 ^ k"
proof -
  define e where "e = unat (drop_bit 23 w AND 0xFF)"
  define m where "m = uint (w AND 0x7FFFFF)"
  define sig where "sig = (if e = 0 then m else 2 ^ 23 + m)"
  define mag :: rat where "mag = of_int (sig * 2 ^ (e - 1)) / 2 ^ 149"
  have m_range: "0 \<le> m" "m < 2 ^ 23"
    unfolding m_def by (rule float32_fraction_range)+
  have sig_range: "0 \<le> sig" "sig < 2 ^ 24"
    using m_range by (simp_all add: sig_def)
  have mag_nonneg: "0 \<le> mag"
    using sig_range(1) by (simp add: mag_def)
  have val: "float32_value w =
               (if e = 255 then (if m = 0 then (if bit w 31 then NegInf else PosInf) else NaN)
                else if mag = 0 then (if bit w 31 then NegZero else Fin 0)
                else Fin (if bit w 31 then - mag else mag))"
    by (simp only: float32_value_def Let_def e_def m_def sig_def mag_def)
  from assms have "\<bar>y\<bar> = mag"
    using mag_nonneg by (auto simp: val finite_value_def split: if_splits)
  then have "\<bar>y\<bar> * 2 ^ 149 = of_int sig * 2 ^ (e - 1)"
    by (simp add: mag_def)
  with sig_range show ?thesis by blast
qed

subsection \<open>The scale and the significand chosen for a magnitude\<close>

lemma encode_scale:
  fixes r :: rat
  assumes "0 \<le> r"
  defines "s0 \<equiv> bit_length \<lfloor>r\<rfloor> - 24"
  shows encode_scale_lower: "0 < s0 \<Longrightarrow> 2 ^ (23 + s0) \<le> r"
    and encode_scale_upper: "r < 2 ^ (24 + s0)"
proof -
  define n where "n = \<lfloor>r\<rfloor>"
  define L where "L = bit_length n"
  have s0: "s0 = L - 24" by (simp add: s0_def L_def n_def)
  have "n < 2 ^ L" unfolding L_def by (rule bit_length_upper)
  then have "n + 1 \<le> 2 ^ L" by simp
  then have "(of_int (n + 1) :: rat) \<le> of_int (2 ^ L)" by (simp only: of_int_le_iff)
  then have "(of_int n :: rat) + 1 \<le> 2 ^ L" by simp
  moreover have "r < of_int n + 1" unfolding n_def by linarith
  ultimately have "r < 2 ^ L" by linarith
  also have "(2 :: rat) ^ L \<le> 2 ^ (24 + s0)"
    by (rule power_increasing) (simp_all add: s0)
  finally show "r < 2 ^ (24 + s0)" .
  show "2 ^ (23 + s0) \<le> r" if "0 < s0"
  proof -
    from that have L: "L - 1 = 23 + s0" "0 < L" by (simp_all add: s0)
    from L(2) have "2 ^ (L - 1) \<le> n" unfolding L_def by (rule bit_length_lower)
    then have "2 ^ (23 + s0) \<le> n" by (simp only: L(1))
    then have "(of_int (2 ^ (23 + s0)) :: rat) \<le> of_int n" by (simp only: of_int_le_iff)
    then have "(2 :: rat) ^ (23 + s0) \<le> of_int n" by (simp only: of_int_power of_int_numeral)
    moreover have "of_int n \<le> r" unfolding n_def by linarith
    ultimately show ?thesis by linarith
  qed
qed

lemma encode_significand:
  fixes r :: rat
  assumes "0 \<le> r"
  defines "s0 \<equiv> bit_length \<lfloor>r\<rfloor> - 24"
  defines "m0 \<equiv> round_half_even (r / 2 ^ s0)"
  shows encode_significand_nonneg: "0 \<le> m0"
    and encode_significand_upper: "m0 \<le> 2 ^ 24"
    and encode_significand_lower: "0 < s0 \<Longrightarrow> 2 ^ 23 \<le> m0"
proof -
  define x where "x = r / 2 ^ s0"
  have m0: "m0 = round_half_even x" by (simp add: m0_def x_def)
  from assms(1) have "of_int 0 \<le> x" by (simp add: x_def)
  then show "0 \<le> m0" unfolding m0 by (rule round_half_even_ge)
  have "r < 2 ^ (24 + s0)"
    unfolding s0_def using assms(1) by (rule encode_scale_upper)
  then have "r < 2 ^ 24 * 2 ^ s0" by (simp only: power_add)
  then have "x < 2 ^ 24" by (simp add: x_def divide_less_eq)
  then have "x \<le> of_int (2 ^ 24)" by simp
  then show "m0 \<le> 2 ^ 24" unfolding m0 by (rule round_half_even_le)
  show "2 ^ 23 \<le> m0" if "0 < s0"
  proof -
    from that have "2 ^ (23 + s0) \<le> r"
      unfolding s0_def using assms(1) by (intro encode_scale_lower)
    then have "2 ^ 23 * 2 ^ s0 \<le> r" by (simp only: power_add)
    then have "2 ^ 23 \<le> x" by (simp add: x_def le_divide_eq)
    then have "of_int (2 ^ 23) \<le> x" by simp
    then show ?thesis unfolding m0 by (rule round_half_even_ge)
  qed
qed

text \<open>In units of \<open>2 ^ - 149\<close> the first magnitude that is stored as infinity is
  \<open>2 ^ 277 - 2 ^ 252\<close>, half a step beyond the largest finite value.\<close>

lemma encode_overflow:
  fixes r :: rat
  assumes "0 \<le> r"
  defines "s0 \<equiv> bit_length \<lfloor>r\<rfloor> - 24"
  defines "m0 \<equiv> round_half_even (r / 2 ^ s0)"
  shows encode_below_overflow:
      "r < 2 ^ 277 - 2 ^ 252 \<Longrightarrow> s0 \<le> 253 \<and> (s0 = 253 \<longrightarrow> m0 < 2 ^ 24)"
    and encode_from_overflow:
      "2 ^ 277 - 2 ^ 252 \<le> r \<Longrightarrow> 253 \<le> s0 \<and> (s0 = 253 \<longrightarrow> m0 = 2 ^ 24)"
proof -
  define P :: rat where "P = 2 ^ 253"
  have Ppos: "0 < P" by (simp add: P_def)
  have big: "(2 :: rat) ^ 277 - 2 ^ 252 = (2 ^ 24 - 1 / 2) * P"
    by (simp add: P_def)
  show "s0 \<le> 253 \<and> (s0 = 253 \<longrightarrow> m0 < 2 ^ 24)" if below: "r < 2 ^ 277 - 2 ^ 252"
  proof
    from below have "r < 2 ^ 277" by simp
    moreover have "of_int \<lfloor>r\<rfloor> \<le> r" by linarith
    ultimately have "(of_int \<lfloor>r\<rfloor> :: rat) < of_int (2 ^ 277)" by simp
    then have "\<lfloor>r\<rfloor> < 2 ^ 277" by (simp only: of_int_less_iff)
    then have "bit_length \<lfloor>r\<rfloor> \<le> 277" by (rule bit_length_le)
    then show "s0 \<le> 253" by (simp add: s0_def)
    show "s0 = 253 \<longrightarrow> m0 < 2 ^ 24"
    proof
      assume s0: "s0 = 253"
      from below have "r < (2 ^ 24 - 1 / 2) * P" by (simp only: big)
      with Ppos have "r / P < 2 ^ 24 - 1 / 2" by (simp add: divide_less_eq)
      then have "r / P < of_int (2 ^ 24) - 1 / 2" by simp
      then have "round_half_even (r / P) \<le> 2 ^ 24 - 1"
        by (rule round_half_even_below_half)
      then show "m0 < 2 ^ 24" by (simp add: m0_def s0 P_def)
    qed
  qed
  show "253 \<le> s0 \<and> (s0 = 253 \<longrightarrow> m0 = 2 ^ 24)" if over: "2 ^ 277 - 2 ^ 252 \<le> r"
  proof
    have "(2 :: rat) ^ 276 \<le> 2 ^ 277 - 2 ^ 252" by simp
    with over have "(2 :: rat) ^ 276 \<le> r" by linarith
    then have "of_int (2 ^ 276) \<le> r" by simp
    then have "2 ^ 276 \<le> \<lfloor>r\<rfloor>" by (simp only: le_floor_iff)
    then have "276 < bit_length \<lfloor>r\<rfloor>" by (rule bit_length_gt)
    then show "253 \<le> s0" by (simp add: s0_def)
    show "s0 = 253 \<longrightarrow> m0 = 2 ^ 24"
    proof
      assume s0: "s0 = 253"
      from over have "(2 ^ 24 - 1 / 2) * P \<le> r" by (simp only: big)
      with Ppos have "2 ^ 24 - 1 / 2 \<le> r / P" by (simp add: le_divide_eq)
      then have "of_int (2 ^ 24) - 1 / 2 \<le> r / P" by simp
      then have "2 ^ 24 \<le> round_half_even (r / P)"
        by (rule round_half_even_from_half) simp
      then have "2 ^ 24 \<le> m0" by (simp add: m0_def s0 P_def)
      moreover have "m0 \<le> 2 ^ 24"
        unfolding m0_def s0_def using assms(1) by (rule encode_significand_upper)
      ultimately show "m0 = 2 ^ 24" by simp
    qed
  qed
qed

subsection \<open>The word stored for a finite number\<close>

lemma float32_bits_Fin_overflow:
  assumes "2 ^ 128 - 2 ^ 103 \<le> \<bar>q\<bar>"
  shows "float32_bits (Fin q) = (if q < 0 then 0x80000000 else 0) OR 0x7F800000"
proof -
  define r where "r = \<bar>q\<bar> * 2 ^ 149"
  define s0 where "s0 = bit_length \<lfloor>r\<rfloor> - 24"
  define m0 where "m0 = round_half_even (r / 2 ^ s0)"
  define m where "m = (if m0 = 2 ^ 24 then 2 ^ 23 else m0)"
  define s where "s = (if m0 = 2 ^ 24 then s0 + 1 else s0)"
  define e where "e = (if m < 2 ^ 23 then 0 else s + 1)"
  define frac where "frac = (if m < 2 ^ 23 then m else m - 2 ^ 23)"
  have code: "float32_bits (Fin q) =
                (if 255 \<le> e then (if q < 0 then 0x80000000 else 0) OR 0x7F800000
                 else (if q < 0 then 0x80000000 else 0) OR push_bit 23 (of_nat e)
                      OR word_of_int frac)"
    by (simp only: float32_bits_def jsnum.case Let_def
        frac_def e_def s_def m_def m0_def s0_def r_def)
  have r0: "0 \<le> r" by (simp add: r_def)
  have "(2 ^ 128 - 2 ^ 103) * 2 ^ 149 \<le> r"
    unfolding r_def using assms by (simp only: mult_le_cancel_right) simp
  then have "2 ^ 277 - 2 ^ 252 \<le> r" by simp
  then have s0: "253 \<le> s0" "s0 = 253 \<longrightarrow> m0 = 2 ^ 24"
    using encode_from_overflow [OF r0] by (simp_all add: s0_def m0_def)
  from s0(1) have "0 < s0" by simp
  then have "2 ^ 23 \<le> m0"
    unfolding m0_def s0_def using r0 by (intro encode_significand_lower)
  then have m: "\<not> m < 2 ^ 23" by (simp add: m_def)
  from s0 have "254 \<le> s" by (auto simp: s_def)
  with m have "255 \<le> e" by (simp add: e_def)
  then show ?thesis by (simp only: code if_True)
qed

lemma float32_bits_Fin_finite:
  assumes "\<bar>q\<bar> < 2 ^ 128 - 2 ^ 103"
  defines "r \<equiv> \<bar>q\<bar> * 2 ^ 149"
  defines "s0 \<equiv> bit_length \<lfloor>r\<rfloor> - 24"
  defines "m0 \<equiv> round_half_even (r / 2 ^ s0)"
  shows "\<exists>e frac. e < 255 \<and> 0 \<le> frac \<and> frac < 2 ^ 23
           \<and> float32_bits (Fin q) =
               (if q < 0 then 0x80000000 else 0) OR push_bit 23 (of_nat e) OR word_of_int frac
           \<and> (of_int ((if e = 0 then frac else 2 ^ 23 + frac) * 2 ^ (e - 1)) :: rat)
               = of_int m0 * 2 ^ s0
           \<and> (even m0 \<longrightarrow> even frac)"
proof -
  define m where "m = (if m0 = 2 ^ 24 then 2 ^ 23 else m0)"
  define s where "s = (if m0 = 2 ^ 24 then s0 + 1 else s0)"
  define e where "e = (if m < 2 ^ 23 then 0 else s + 1)"
  define frac where "frac = (if m < 2 ^ 23 then m else m - 2 ^ 23)"
  have code: "float32_bits (Fin q) =
                (if 255 \<le> e then (if q < 0 then 0x80000000 else 0) OR 0x7F800000
                 else (if q < 0 then 0x80000000 else 0) OR push_bit 23 (of_nat e)
                      OR word_of_int frac)"
    by (simp only: float32_bits_def jsnum.case Let_def
        frac_def e_def s_def m_def m0_def s0_def r_def)
  have r0: "0 \<le> r" by (simp add: r_def)
  have "r < (2 ^ 128 - 2 ^ 103) * 2 ^ 149"
    unfolding r_def using assms(1) by (simp only: mult_less_cancel_right) simp
  then have "r < 2 ^ 277 - 2 ^ 252" by simp
  then have s0: "s0 \<le> 253" "s0 = 253 \<longrightarrow> m0 < 2 ^ 24"
    using encode_below_overflow [OF r0] by (simp_all add: s0_def m0_def)
  have m0: "0 \<le> m0" "m0 \<le> 2 ^ 24"
    unfolding m0_def s0_def using r0
    by (rule encode_significand_nonneg, rule encode_significand_upper)
  have m0_low: "0 < s0 \<Longrightarrow> 2 ^ 23 \<le> m0"
    unfolding m0_def s0_def using r0 by (intro encode_significand_lower)
  have m: "0 \<le> m" "m < 2 ^ 24"
    using m0 by (auto simp: m_def)
  have scaled: "(of_int m :: rat) * 2 ^ s = of_int m0 * 2 ^ s0"
    by (simp add: m_def s_def)
  have small: "s = 0" if "m < 2 ^ 23"
  proof -
    from that have ne: "m0 \<noteq> 2 ^ 24" by (auto simp: m_def split: if_splits)
    with that have "m0 < 2 ^ 23" by (simp add: m_def)
    with m0_low have "s0 = 0" by fastforce
    with ne show ?thesis by (simp add: s_def)
  qed
  from s0 have "s \<le> 253" by (auto simp: s_def)
  then have e: "e < 255" by (simp add: e_def)
  have frac: "0 \<le> frac" "frac < 2 ^ 23"
    using m by (auto simp: frac_def)
  have sig: "(if e = 0 then frac else 2 ^ 23 + frac) = m"
    by (simp add: e_def frac_def)
  have expo: "e - 1 = s"
    using small by (simp add: e_def)
  have decoded: "(of_int ((if e = 0 then frac else 2 ^ 23 + frac) * 2 ^ (e - 1)) :: rat)
                 = of_int m0 * 2 ^ s0"
    unfolding sig expo using scaled by simp
  have parity: "even m0 \<longrightarrow> even frac"
    by (auto simp: frac_def m_def)
  from e have "float32_bits (Fin q) =
                 (if q < 0 then 0x80000000 else 0) OR push_bit 23 (of_nat e) OR word_of_int frac"
    by (simp only: code) simp
  with e frac decoded parity show ?thesis by blast
qed

subsection \<open>The value of the word stored for a finite number\<close>

lemma float32_value_assembled:
  fixes e :: nat and frac :: int and neg :: bool
  assumes "e < 255" and "0 \<le> frac" and "frac < 2 ^ 23"
  shows "finite_value
           (float32_value
              ((if neg then 0x80000000 else 0) OR push_bit 23 (of_nat e) OR word_of_int frac)) =
         Some (if neg then - (of_int ((if e = 0 then frac else 2 ^ 23 + frac) * 2 ^ (e - 1)) / 2 ^ 149)
               else of_int ((if e = 0 then frac else 2 ^ 23 + frac) * 2 ^ (e - 1)) / 2 ^ 149)"
proof -
  define w :: "32 word"
    where "w = (if neg then 0x80000000 else 0) OR push_bit 23 (of_nat e) OR word_of_int frac"
  define mag :: rat
    where "mag = of_int ((if e = 0 then frac else 2 ^ 23 + frac) * 2 ^ (e - 1)) / 2 ^ 149"
  from assms(1) have e: "e < 256" by simp
  have fields: "bit w 31 \<longleftrightarrow> neg" "unat (drop_bit 23 w AND 0xFF) = e"
    "uint (w AND 0x7FFFFF) = frac"
    unfolding w_def by (rule float32_fields [OF e assms(2,3)])+
  have "float32_value w =
          (if e = 255 then (if frac = 0 then (if neg then NegInf else PosInf) else NaN)
           else if mag = 0 then (if neg then NegZero else Fin 0)
           else Fin (if neg then - mag else mag))"
    by (simp only: float32_value_def Let_def fields mag_def)
  with assms(1) have "finite_value (float32_value w) = Some (if neg then - mag else mag)"
    by (simp add: finite_value_def)
  then show ?thesis by (simp only: w_def mag_def)
qed

lemma float32_value_infinities:
  "float32_value (0x80000000 OR 0x7F800000) = NegInf"
  "float32_value (0 OR 0x7F800000) = PosInf"
  "bit (0x80000000 OR 0x7F800000 :: 32 word) 31"
  "\<not> bit (0 OR 0x7F800000 :: 32 word) 31"
  by code_simp+

text \<open>The sign bit is that of the number; from \<open>2 ^ 128 - 2 ^ 103\<close> on the infinity of
  that sign is stored.\<close>

lemma float32_bits_Fin_infinite:
  assumes "2 ^ 128 - 2 ^ 103 \<le> \<bar>q\<bar>"
  shows "float32_value (float32_bits (Fin q)) = (if q < 0 then NegInf else PosInf)"
    and "bit (float32_bits (Fin q)) 31 \<longleftrightarrow> q < 0"
  by (simp_all only: float32_bits_Fin_overflow [OF assms] float32_value_infinities
      split: if_split) simp_all

text \<open>
  Below that bound a finite value is stored, with the sign bit of the number. No binary32
  value is nearer to the number, and when another one is as near, the lowest bit of the
  stored word is clear.
\<close>

lemma float32_bits_Fin_nearest:
  assumes below: "\<bar>q\<bar> < 2 ^ 128 - 2 ^ 103"
  shows "\<exists>y. finite_value (float32_value (float32_bits (Fin q))) = Some y
           \<and> (bit (float32_bits (Fin q)) 31 \<longleftrightarrow> q < 0)
           \<and> (\<forall>w' y'. finite_value (float32_value w') = Some y' \<longrightarrow> \<bar>y - q\<bar> \<le> \<bar>y' - q\<bar>)
           \<and> (\<forall>w' y'. finite_value (float32_value w') = Some y' \<and> y' \<noteq> y
                       \<and> \<bar>y' - q\<bar> = \<bar>y - q\<bar> \<longrightarrow> \<not> bit (float32_bits (Fin q)) 0)"
proof -
  define U :: rat where "U = 2 ^ 149"
  define a where "a = \<bar>q\<bar>"
  define r where "r = a * U"
  define s0 where "s0 = bit_length \<lfloor>r\<rfloor> - 24"
  define m0 where "m0 = round_half_even (r / 2 ^ s0)"
  define c :: rat where "c = of_int m0 * 2 ^ s0"
  define mag where "mag = c / U"
  define y where "y = (if q < 0 then - mag else mag)"
  define w where "w = float32_bits (Fin q)"
  have Upos: "0 < U" by (simp add: U_def)
  have r0: "0 \<le> r" using Upos by (simp add: r_def a_def)
  have a: "a = r / U" using Upos by (simp add: r_def)
  from float32_bits_Fin_finite [OF below]
  obtain e frac where e: "e < 255" and frac: "0 \<le> frac" "frac < 2 ^ 23"
    and word: "w = (if q < 0 then 0x80000000 else 0) OR push_bit 23 (of_nat e)
                   OR word_of_int frac"
    and decoded: "(of_int ((if e = 0 then frac else 2 ^ 23 + frac) * 2 ^ (e - 1)) :: rat) = c"
    and parity: "even m0 \<longrightarrow> even frac"
    unfolding w_def c_def m0_def s0_def r_def a_def U_def by blast
  have fv: "finite_value (float32_value w) = Some y"
    unfolding word float32_value_assembled [OF e frac] decoded
    by (simp only: y_def mag_def U_def)
  from e have e': "e < 256" by simp
  have sign: "bit w 31 \<longleftrightarrow> q < 0"
    unfolding word by (rule float32_fields(1) [OF e' frac])
  have low: "bit w 0 \<longleftrightarrow> odd frac"
    unfolding word by (rule float32_fields(4) [OF e' frac])
  have lower: "0 < s0 \<Longrightarrow> 2 ^ (23 + s0) \<le> r"
    unfolding s0_def using r0 by (intro encode_scale_lower)
  have scaled: "\<bar>b / U - a\<bar> = \<bar>b - r\<bar> / U" for b
  proof -
    have "b / U - a = (b - r) / U" by (simp add: a diff_divide_distrib)
    then show ?thesis using Upos by (simp add: abs_divide)
  qed
  have near: "\<bar>c - r\<bar> \<le> \<bar>of_int sig * 2 ^ k - r\<bar>" if "0 \<le> sig" "sig < 2 ^ 24" for sig k
    unfolding c_def m0_def using lower that by (rule grid_nearest(1))
  have "0 \<le> m0"
    unfolding m0_def s0_def using r0 by (rule encode_significand_nonneg)
  then have c0: "0 \<le> c" by (simp add: c_def)
  then have mag0: "0 \<le> mag" using Upos by (simp add: mag_def)
  have "\<bar>c - r\<bar> \<le> \<bar>of_int 0 * 2 ^ 0 - r\<bar>" by (rule near) simp_all
  then have "\<bar>c - r\<bar> / U \<le> r / U"
    using r0 Upos by (simp add: divide_right_mono)
  then have zero_near: "\<bar>mag - a\<bar> \<le> a"
    by (simp only: mag_def scaled a [symmetric])
  have dist: "\<bar>y - q\<bar> = \<bar>mag - a\<bar>"
  proof (cases "q < 0")
    case True
    then have "y = - mag" "a = - q" by (simp_all add: y_def a_def)
    then show ?thesis by linarith
  next
    case False
    then have "y = mag" "a = q" by (simp_all add: y_def a_def)
    then show ?thesis by simp
  qed
  have others: "\<bar>y - q\<bar> \<le> \<bar>y' - q\<bar> \<and> (y' \<noteq> y \<and> \<bar>y' - q\<bar> = \<bar>y - q\<bar> \<longrightarrow> \<not> bit w 0)"
    if fin: "finite_value (float32_value w') = Some y'" for w' y'
  proof -
    from finite_value_grid [OF fin]
    obtain sig k where sig: "0 \<le> sig" "sig < 2 ^ 24"
      and grid: "\<bar>y'\<bar> * U = of_int sig * 2 ^ k"
      unfolding U_def by blast
    define b :: rat where "b = of_int sig * 2 ^ k"
    from grid Upos have y': "\<bar>y'\<bar> = b / U" by (simp add: b_def eq_divide_eq)
    have rev: "\<bar>\<bar>y'\<bar> - a\<bar> \<le> \<bar>y' - q\<bar>"
      unfolding a_def by linarith
    have "\<bar>c - r\<bar> \<le> \<bar>b - r\<bar>"
      unfolding b_def using sig by (rule near)
    then have "\<bar>c - r\<bar> / U \<le> \<bar>b - r\<bar> / U"
      using Upos by (simp add: divide_right_mono)
    then have nearer: "\<bar>mag - a\<bar> \<le> \<bar>\<bar>y'\<bar> - a\<bar>"
      by (simp only: mag_def y' scaled)
    from nearer rev have first: "\<bar>y - q\<bar> \<le> \<bar>y' - q\<bar>"
      by (simp only: dist)
    have second: "\<not> bit w 0" if ne: "y' \<noteq> y" and eq: "\<bar>y' - q\<bar> = \<bar>y - q\<bar>"
    proof -
      from eq nearer rev have same: "\<bar>\<bar>y'\<bar> - a\<bar> = \<bar>mag - a\<bar>"
        by (simp only: dist)
      have apart: "\<bar>y'\<bar> \<noteq> mag"
      proof
        assume same_size: "\<bar>y'\<bar> = mag"
        show False
        proof (cases "q < 0")
          case True
          then have "y = - mag" "a = - q" by (simp_all add: y_def a_def)
          with ne eq mag0 zero_near same_size True have "y' = mag" "0 < mag"
            by linarith+
          with eq \<open>y = - mag\<close> True show False by linarith
        next
          case False
          then have "y = mag" "a = q" by (simp_all add: y_def a_def)
          with ne eq mag0 zero_near same_size False have "y' = - mag" "0 < mag"
            by linarith+
          with eq \<open>y = mag\<close> \<open>a = q\<close> zero_near False show False by linarith
        qed
      qed
      then have "b / U \<noteq> c / U" unfolding y' mag_def .
      then have b_ne: "b \<noteq> c" by auto
      from same have "\<bar>b - r\<bar> / U = \<bar>c - r\<bar> / U"
        by (simp only: y' mag_def scaled)
      with Upos have b_eq: "\<bar>b - r\<bar> = \<bar>c - r\<bar>" by simp
      have "even m0"
        unfolding m0_def
        using lower sig b_ne [unfolded b_def c_def m0_def] b_eq [unfolded b_def c_def m0_def]
        by (rule grid_nearest(2))
      with parity low show ?thesis by simp
    qed
    from first second show ?thesis by blast
  qed
  from fv sign others have
    "finite_value (float32_value w) = Some y
     \<and> (bit w 31 \<longleftrightarrow> q < 0)
     \<and> (\<forall>w' y'. finite_value (float32_value w') = Some y' \<longrightarrow> \<bar>y - q\<bar> \<le> \<bar>y' - q\<bar>)
     \<and> (\<forall>w' y'. finite_value (float32_value w') = Some y' \<and> y' \<noteq> y
                 \<and> \<bar>y' - q\<bar> = \<bar>y - q\<bar> \<longrightarrow> \<not> bit w 0)"
    by blast
  then show ?thesis unfolding w_def by blast
qed

subsection \<open>Storing a binary32 value\<close>

text \<open>
  A significand of at most 24 bits times a power of two, in units of \<open>2 ^ - 149\<close>, is
  stored without rounding: biased exponent \<open>k + 1\<close> for a full significand, 0 for a
  subnormal one.
\<close>

lemma float32_bits_exact:
  fixes sig :: int and k :: nat
  assumes sig: "0 < sig" "sig < 2 ^ 24"
    and sub: "sig < 2 ^ 23 \<Longrightarrow> k = 0"
    and k: "k < 254"
  shows "float32_bits (Fin (if neg then - (of_int (sig * 2 ^ k) / 2 ^ 149)
                            else of_int (sig * 2 ^ k) / 2 ^ 149))
         = (if neg then 0x80000000 else 0)
           OR push_bit 23 (of_nat (if sig < 2 ^ 23 then 0 else k + 1))
           OR word_of_int (if sig < 2 ^ 23 then sig else sig - 2 ^ 23)"
proof -
  define x :: rat where "x = of_int (sig * 2 ^ k) / 2 ^ 149"
  define q where "q = (if neg then - x else x)"
  have xpos: "0 < x"
    using sig(1) by (simp add: x_def)
  have absq: "\<bar>q\<bar> * 2 ^ 149 = of_int (sig * 2 ^ k)"
    using xpos by (simp add: q_def x_def)
  have neg_iff: "q < 0 \<longleftrightarrow> neg"
    using xpos by (simp add: q_def)
  have s0: "bit_length (sig * 2 ^ k) - 24 = k"
  proof (cases "sig < 2 ^ 23")
    case True
    with sub have "k = 0" by simp
    moreover from True have "bit_length sig \<le> 23" by (rule bit_length_le)
    ultimately show ?thesis by simp
  next
    case False
    then have "2 ^ 23 * 2 ^ k \<le> sig * 2 ^ k" by simp
    then have lower: "2 ^ (23 + k) \<le> sig * 2 ^ k" by (simp add: power_add)
    from sig(2) have "sig * 2 ^ k < 2 ^ 24 * 2 ^ k" by simp
    then have upper: "sig * 2 ^ k < 2 ^ Suc (23 + k)" by (simp add: power_add)
    from bit_length_eq [OF lower upper] show ?thesis by simp
  qed
  have m0: "round_half_even (of_int (sig * 2 ^ k) / 2 ^ k) = sig"
    using round_half_even_of_int [of sig] by simp
  have ne: "sig \<noteq> 2 ^ 24"
    using sig(2) by simp
  have small: "\<not> 255 \<le> (if sig < 2 ^ 23 then 0 else k + 1)"
    using k by simp
  have "float32_bits (Fin q)
          = (if neg then 0x80000000 else 0)
            OR push_bit 23 (of_nat (if sig < 2 ^ 23 then 0 else k + 1))
            OR word_of_int (if sig < 2 ^ 23 then sig else sig - 2 ^ 23)"
    unfolding float32_bits_def jsnum.case Let_def absq floor_of_int s0 m0 neg_iff
    using ne small by (simp only: if_False if_True)
  then show ?thesis by (simp only: q_def x_def)
qed

text \<open>Storing a binary32 value and reading it again gives the same value.\<close>

lemma float32_value_bits_value:
  "float32_value (float32_bits (float32_value w)) = float32_value w"
proof -
  define e where "e = unat (drop_bit 23 w AND 0xFF)"
  define m where "m = uint (w AND 0x7FFFFF)"
  define sig where "sig = (if e = 0 then m else 2 ^ 23 + m)"
  have m_range: "0 \<le> m" "m < 2 ^ 23"
    unfolding m_def by (rule float32_fraction_range)+
  have e_range: "e < 256"
    unfolding e_def by (rule float32_exponent_range)
  define mag :: rat where "mag = of_int (sig * 2 ^ (e - 1)) / 2 ^ 149"
  have zero: "mag = 0 \<longleftrightarrow> sig = 0"
    by (simp add: mag_def)
  have "float32_value w =
          (if e = 255 then (if m = 0 then (if bit w 31 then NegInf else PosInf) else NaN)
           else if mag = 0 then (if bit w 31 then NegZero else Fin 0)
           else Fin (if bit w 31 then - mag else mag))"
    by (simp only: float32_value_def Let_def e_def m_def sig_def mag_def)
  then have "float32_value w =
          (if e = 255 then (if m = 0 then (if bit w 31 then NegInf else PosInf) else NaN)
           else if sig = 0 then (if bit w 31 then NegZero else Fin 0)
           else Fin (if bit w 31 then - mag else mag))"
    unfolding zero .
  then have val: "float32_value w =
               (if e = 255 then (if m = 0 then (if bit w 31 then NegInf else PosInf) else NaN)
                else if sig = 0 then (if bit w 31 then NegZero else Fin 0)
                else Fin (if bit w 31 then - (of_int (sig * 2 ^ (e - 1)) / 2 ^ 149)
                          else of_int (sig * 2 ^ (e - 1)) / 2 ^ 149))"
    unfolding mag_def .
  have special: "float32_value (float32_bits NaN) = NaN"
    "float32_value (float32_bits PosInf) = PosInf"
    "float32_value (float32_bits NegInf) = NegInf"
    "float32_value (float32_bits NegZero) = NegZero"
    "float32_value (float32_bits (Fin 0)) = Fin 0"
    by code_simp+
  show ?thesis
  proof (cases "e = 255")
    case True
    then show ?thesis by (simp add: val special)
  next
    case finite: False
    show ?thesis
    proof (cases "sig = 0")
      case True
      with finite have "float32_value w = (if bit w 31 then NegZero else Fin 0)"
        by (simp add: val)
      then show ?thesis by (simp add: special)
    next
      case False
      with m_range have pos: "0 < sig" by (simp add: sig_def split: if_splits)
      from m_range have upper: "sig < 2 ^ 24" by (simp add: sig_def)
      have sub: "sig < 2 ^ 23 \<Longrightarrow> e - 1 = 0"
        using m_range by (simp add: sig_def split: if_splits)
      from finite e_range have k: "e - 1 < 254" by simp
      have e_back: "(if sig < 2 ^ 23 then 0 else e - 1 + 1) = e"
        using m_range by (simp add: sig_def)
      have m_back: "(if sig < 2 ^ 23 then sig else sig - 2 ^ 23) = m"
        using m_range by (simp add: sig_def)
      have "float32_bits (float32_value w) = w"
        using finite False
        by (simp only: val if_False float32_bits_exact [OF pos upper sub k] e_back m_back)
          (simp only: e_def m_def float32_reassemble)
      then show ?thesis by simp
    qed
  qed
qed

section \<open>The layout of the payload\<close>

lemma be16_bytes16: "be16 (ucast (drop_bit 8 w)) (ucast w) = (w :: 16 word)"
  unfolding be16_def
  apply (rule bit_word_eqI)
  subgoal for n
    by (cases "n < 8"; auto simp: bit_simps)
  done

lemma be32_bytes32:
  "be32 (ucast (drop_bit 24 w)) (ucast (drop_bit 16 w)) (ucast (drop_bit 8 w)) (ucast w)
     = (w :: 32 word)"
  unfolding be32_def
  apply (rule bit_word_eqI)
  subgoal for n
    by (cases "n < 8"; cases "n < 16"; cases "n < 24"; auto simp: bit_simps)
  done

text \<open>The two bytes of a 16-bit number, the high one first.\<close>

lemma uint_bytes16:
  "uint (ucast (drop_bit 8 r) :: byte) * 256 + uint (ucast r :: byte) = uint (r :: 16 word)"
proof -
  have "uint r < 65536" using uint_lt2p [of r] by simp
  then have "uint r div 256 < 256" by simp
  moreover have "0 \<le> uint r div 256" by (simp add: pos_imp_zdiv_nonneg_iff)
  ultimately have small: "(uint r div 256) mod 256 = uint r div 256" by simp
  have hi: "uint (ucast (drop_bit 8 r) :: byte) = (uint r div 256) mod 256"
    by (simp only: unsigned_ucast_eq take_bit_eq_mod drop_bit_eq_div uint_div) simp
  have lo: "uint (ucast r :: byte) = uint r mod 256"
    by (simp add: unsigned_ucast_eq take_bit_eq_mod)
  show ?thesis unfolding hi lo small by simp
qed

lemma buildDataPayload_bytes:
  "buildDataPayload reg val isFloat =
     Inr (new_Uint8Array
            ([0, 0] @ bytes16 (word_of_int reg)
             @ bytes32 (if isFloat then float32_bits val else ToInt32 (ToIntegerOrZero val))))"
  by (simp add: buildDataPayload_def setUint8_def setUint16_def setFloat32_def setInt32_def
      bytes16_def bytes32_def eval_nat_numeral)

text \<open>The integer that is stored is the number without its fraction, towards zero.\<close>

lemma ToIntegerOrZero_truncates:
  "case val of
     Fin q \<Rightarrow> if 0 \<le> q
              then of_int (ToIntegerOrZero val) \<le> q \<and> q < of_int (ToIntegerOrZero val) + 1
              else of_int (ToIntegerOrZero val) - 1 < q \<and> q \<le> of_int (ToIntegerOrZero val)
   | _ \<Rightarrow> ToIntegerOrZero val = 0"
proof (cases val)
  case (Fin q)
  have "of_int \<lfloor>q\<rfloor> \<le> q" "q < of_int \<lfloor>q\<rfloor> + 1" "of_int \<lceil>q\<rceil> - 1 < q" "q \<le> of_int \<lceil>q\<rceil>"
    by linarith+
  with Fin show ?thesis by (simp add: ToIntegerOrZero_def)
qed (simp_all add: ToIntegerOrZero_def)

lemma sint_ToInt32:
  assumes "- (2 ^ 31) \<le> v" and "v < 2 ^ 31"
  shows "sint (ToInt32 v) = v"
proof -
  have "signed_take_bit 31 v = v"
    using assms by (simp add: signed_take_bit_int_eq_self)
  then show ?thesis by (simp add: ToInt32_def sint_sbintrunc')
qed

lemma uint_ToInt32: "uint (ToInt32 v) = v mod 2 ^ 32"
  by (simp add: ToInt32_def uint_word_of_int take_bit_eq_mod)

text \<open>What is stored for a number that is written as a binary32 value.\<close>

lemma float32_bits_stored:
  "case val of
     NaN \<Rightarrow> float32_value (float32_bits val) = NaN
   | PosInf \<Rightarrow> float32_bits val = 0x7F800000
   | NegInf \<Rightarrow> float32_bits val = 0xFF800000
   | NegZero \<Rightarrow> float32_bits val = 0x80000000
   | Fin q \<Rightarrow>
       (bit (float32_bits val) 31 \<longleftrightarrow> q < 0) \<and>
       (if 2 ^ 128 - 2 ^ 103 \<le> \<bar>q\<bar>
        then float32_value (float32_bits val) = (if q < 0 then NegInf else PosInf)
        else \<exists>y. finite_value (float32_value (float32_bits val)) = Some y
               \<and> (\<forall>w' y'. finite_value (float32_value w') = Some y' \<longrightarrow>
                            \<bar>y - q\<bar> \<le> \<bar>y' - q\<bar>)
               \<and> (\<forall>w' y'. finite_value (float32_value w') = Some y' \<and> y' \<noteq> y
                            \<and> \<bar>y' - q\<bar> = \<bar>y - q\<bar> \<longrightarrow>
                            \<not> bit (float32_bits val) 0))"
proof (cases val)
  case NaN
  have "float32_value (float32_bits NaN) = NaN" by code_simp
  with NaN show ?thesis by simp
next
  case PosInf
  then show ?thesis by (simp add: float32_bits_def)
next
  case NegInf
  then show ?thesis by (simp add: float32_bits_def)
next
  case NegZero
  then show ?thesis by (simp add: float32_bits_def)
next
  case (Fin q)
  show ?thesis
  proof (cases "2 ^ 128 - 2 ^ 103 \<le> \<bar>q\<bar>")
    case True
    from float32_bits_Fin_infinite [OF True] True Fin show ?thesis
      by (simp only: jsnum.case if_True simp_thms)
  next
    case False
    then have "\<bar>q\<bar> < 2 ^ 128 - 2 ^ 103" by simp
    from float32_bits_Fin_nearest [OF this]
    obtain y where "finite_value (float32_value (float32_bits (Fin q))) = Some y"
      and "bit (float32_bits (Fin q)) 31 \<longleftrightarrow> q < 0"
      and "\<forall>w' y'. finite_value (float32_value w') = Some y' \<longrightarrow> \<bar>y - q\<bar> \<le> \<bar>y' - q\<bar>"
      and "\<forall>w' y'. finite_value (float32_value w') = Some y' \<and> y' \<noteq> y
                   \<and> \<bar>y' - q\<bar> = \<bar>y - q\<bar> \<longrightarrow> \<not> bit (float32_bits (Fin q)) 0"
      by blast
    then have "(bit (float32_bits (Fin q)) 31 \<longleftrightarrow> q < 0) \<and>
               (\<exists>y. finite_value (float32_value (float32_bits (Fin q))) = Some y
                  \<and> (\<forall>w' y'. finite_value (float32_value w') = Some y' \<longrightarrow>
                               \<bar>y - q\<bar> \<le> \<bar>y' - q\<bar>)
                  \<and> (\<forall>w' y'. finite_value (float32_value w') = Some y' \<and> y' \<noteq> y
                               \<and> \<bar>y' - q\<bar> = \<bar>y - q\<bar> \<longrightarrow>
                               \<not> bit (float32_bits (Fin q)) 0))"
      by blast
    with False Fin show ?thesis
      by (simp only: jsnum.case if_False)
  qed
qed

text \<open>
  Claim C5. \<open>buildDataPayload\<close> always returns 8 bytes, a buffer of their own: bytes 0
  and 1 are zero, bytes 2 and 3 are the register address as an unsigned 16-bit number
  with the high byte first, and bytes 4 to 7 are, high byte first, the binary32 encoding
  of the value when \<open>isFloat\<close> is set and otherwise its signed 32-bit integer.

  The binary32 encoding of a finite number \<open>q\<close> has the sign bit of \<open>q\<close>. From
  \<open>2 ^ 128 - 2 ^ 103\<close> on in magnitude it is the infinity of that sign; below, it is a
  finite binary32 value such that no binary32 value is nearer to \<open>q\<close>, with the lowest
  bit clear when another value is as near. The infinities are 7F800000 and FF800000,
  the negative zero is 80000000, and NaN is stored as a NaN.

  The signed 32-bit integer of a finite number is the number without its fraction
  (towards zero), modulo \<open>2 ^ 32\<close>: the number itself when it is an integer from
  \<open>- 2 ^ 31\<close> to \<open>2 ^ 31 - 1\<close>. For NaN, the infinities and the negative zero it is 0.
\<close>

theorem payload_layout:
  "\<exists>b2 b3 b4 b5 b6 b7.
     buildDataPayload reg val isFloat = Inr (new_Uint8Array [0, 0, b2, b3, b4, b5, b6, b7]) \<and>
     uint b2 * 256 + uint b3 = reg mod 65536 \<and>
     (isFloat \<longrightarrow>
        (case val of
           NaN \<Rightarrow> float32_value (be32 b4 b5 b6 b7) = NaN
         | PosInf \<Rightarrow> be32 b4 b5 b6 b7 = 0x7F800000
         | NegInf \<Rightarrow> be32 b4 b5 b6 b7 = 0xFF800000
         | NegZero \<Rightarrow> be32 b4 b5 b6 b7 = 0x80000000
         | Fin q \<Rightarrow>
             (bit (be32 b4 b5 b6 b7) 31 \<longleftrightarrow> q < 0) \<and>
             (if 2 ^ 128 - 2 ^ 103 \<le> \<bar>q\<bar>
              then float32_value (be32 b4 b5 b6 b7) = (if q < 0 then NegInf else PosInf)
              else \<exists>y. finite_value (float32_value (be32 b4 b5 b6 b7)) = Some y
                     \<and> (\<forall>w' y'. finite_value (float32_value w') = Some y' \<longrightarrow>
                                  \<bar>y - q\<bar> \<le> \<bar>y' - q\<bar>)
                     \<and> (\<forall>w' y'. finite_value (float32_value w') = Some y' \<and> y' \<noteq> y
                                  \<and> \<bar>y' - q\<bar> = \<bar>y - q\<bar> \<longrightarrow>
                                  \<not> bit (be32 b4 b5 b6 b7) 0)))) \<and>
     (\<not> isFloat \<longrightarrow>
        (\<exists>n. (case val of
                Fin q \<Rightarrow> if 0 \<le> q then of_int n \<le> q \<and> q < of_int n + 1
                         else of_int n - 1 < q \<and> q \<le> of_int n
              | _ \<Rightarrow> n = 0)
            \<and> uint (be32 b4 b5 b6 b7) = n mod 2 ^ 32
            \<and> (- (2 ^ 31) \<le> n \<and> n < 2 ^ 31 \<longrightarrow> sint (be32 b4 b5 b6 b7) = n)))"
proof -
  define r :: "16 word" where "r = word_of_int reg"
  define v where "v = (if isFloat then float32_bits val else ToInt32 (ToIntegerOrZero val))"
  define b2 :: byte where "b2 = ucast (drop_bit 8 r)"
  define b3 :: byte where "b3 = ucast r"
  define b4 :: byte where "b4 = ucast (drop_bit 24 v)"
  define b5 :: byte where "b5 = ucast (drop_bit 16 v)"
  define b6 :: byte where "b6 = ucast (drop_bit 8 v)"
  define b7 :: byte where "b7 = ucast v"
  have built: "buildDataPayload reg val isFloat
                 = Inr (new_Uint8Array [0, 0, b2, b3, b4, b5, b6, b7])"
    unfolding buildDataPayload_bytes
    by (simp add: bytes16_def bytes32_def r_def v_def b2_def b3_def b4_def b5_def b6_def b7_def)
  have addr: "uint b2 * 256 + uint b3 = reg mod 65536"
    unfolding b2_def b3_def uint_bytes16 by (simp add: r_def uint_word_of_int)
  have data: "be32 b4 b5 b6 b7 = v"
    unfolding b4_def b5_def b6_def b7_def by (rule be32_bytes32)
  have float_part: "isFloat \<longrightarrow>
        (case val of
           NaN \<Rightarrow> float32_value v = NaN
         | PosInf \<Rightarrow> v = 0x7F800000
         | NegInf \<Rightarrow> v = 0xFF800000
         | NegZero \<Rightarrow> v = 0x80000000
         | Fin q \<Rightarrow>
             (bit v 31 \<longleftrightarrow> q < 0) \<and>
             (if 2 ^ 128 - 2 ^ 103 \<le> \<bar>q\<bar>
              then float32_value v = (if q < 0 then NegInf else PosInf)
              else \<exists>y. finite_value (float32_value v) = Some y
                     \<and> (\<forall>w' y'. finite_value (float32_value w') = Some y' \<longrightarrow>
                                  \<bar>y - q\<bar> \<le> \<bar>y' - q\<bar>)
                     \<and> (\<forall>w' y'. finite_value (float32_value w') = Some y' \<and> y' \<noteq> y
                                  \<and> \<bar>y' - q\<bar> = \<bar>y - q\<bar> \<longrightarrow>
                                  \<not> bit v 0)))"
  proof
    assume isFloat
    then have "v = float32_bits val" by (simp add: v_def)
    then show "case val of
           NaN \<Rightarrow> float32_value v = NaN
         | PosInf \<Rightarrow> v = 0x7F800000
         | NegInf \<Rightarrow> v = 0xFF800000
         | NegZero \<Rightarrow> v = 0x80000000
         | Fin q \<Rightarrow>
             (bit v 31 \<longleftrightarrow> q < 0) \<and>
             (if 2 ^ 128 - 2 ^ 103 \<le> \<bar>q\<bar>
              then float32_value v = (if q < 0 then NegInf else PosInf)
              else \<exists>y. finite_value (float32_value v) = Some y
                     \<and> (\<forall>w' y'. finite_value (float32_value w') = Some y' \<longrightarrow>
                                  \<bar>y - q\<bar> \<le> \<bar>y' - q\<bar>)
                     \<and> (\<forall>w' y'. finite_value (float32_value w') = Some y' \<and> y' \<noteq> y
                                  \<and> \<bar>y' - q\<bar> = \<bar>y - q\<bar> \<longrightarrow>
                                  \<not> bit v 0))"
      using float32_bits_stored [of val] by (simp only:)
  qed
  have int_part: "\<not> isFloat \<longrightarrow>
        (\<exists>n. (case val of
                Fin q \<Rightarrow> if 0 \<le> q then of_int n \<le> q \<and> q < of_int n + 1
                         else of_int n - 1 < q \<and> q \<le> of_int n
              | _ \<Rightarrow> n = 0)
            \<and> uint v = n mod 2 ^ 32
            \<and> (- (2 ^ 31) \<le> n \<and> n < 2 ^ 31 \<longrightarrow> sint v = n))"
  proof
    assume "\<not> isFloat"
    then have v: "v = ToInt32 (ToIntegerOrZero val)" by (simp add: v_def)
    have "(case val of
             Fin q \<Rightarrow> if 0 \<le> q
                      then of_int (ToIntegerOrZero val) \<le> q \<and> q < of_int (ToIntegerOrZero val) + 1
                      else of_int (ToIntegerOrZero val) - 1 < q \<and> q \<le> of_int (ToIntegerOrZero val)
           | _ \<Rightarrow> ToIntegerOrZero val = 0)
          \<and> uint v = ToIntegerOrZero val mod 2 ^ 32
          \<and> (- (2 ^ 31) \<le> ToIntegerOrZero val \<and> ToIntegerOrZero val < 2 ^ 31 \<longrightarrow>
               sint v = ToIntegerOrZero val)"
      unfolding v using ToIntegerOrZero_truncates [of val] uint_ToInt32 sint_ToInt32
      by blast
    then show "\<exists>n. (case val of
                Fin q \<Rightarrow> if 0 \<le> q then of_int n \<le> q \<and> q < of_int n + 1
                         else of_int n - 1 < q \<and> q \<le> of_int n
              | _ \<Rightarrow> n = 0)
            \<and> uint v = n mod 2 ^ 32
            \<and> (- (2 ^ 31) \<le> n \<and> n < 2 ^ 31 \<longrightarrow> sint v = n)"
      by (rule exI)
  qed
  from built addr float_part int_part show ?thesis
    unfolding data [symmetric] by blast
qed

theorem payload_layout_witness:
  "buildDataPayload 0x0410 (Fin (1 / 10)) True
     = Inr (new_Uint8Array [0x00, 0x00, 0x04, 0x10, 0x3D, 0xCC, 0xCC, 0xCD])
   \<and> \<not> bit (be32 0x3D 0xCC 0xCC 0xCD) 31
   \<and> (\<exists>y. finite_value (float32_value (be32 0x3D 0xCC 0xCC 0xCD)) = Some y
          \<and> \<bar>y - 1 / 10\<bar> \<le> \<bar>3355443 / 33554432 - 1 / 10\<bar>
          \<and> \<bar>y - 1 / 10\<bar> \<le> \<bar>6710887 / 67108864 - 1 / 10\<bar>)
   \<and> buildDataPayload 0x0410 NegZero True
       = Inr (new_Uint8Array [0x00, 0x00, 0x04, 0x10, 0x80, 0x00, 0x00, 0x00])
   \<and> be32 0x80 0x00 0x00 0x00 = 0x80000000
   \<and> buildDataPayload 0x0400 (Fin (- (5 / 2))) False
       = Inr (new_Uint8Array [0x00, 0x00, 0x04, 0x00, 0xFF, 0xFF, 0xFF, 0xFE])
   \<and> sint (be32 0xFF 0xFF 0xFF 0xFE) = - 2"
proof -
  have float_bytes:
    "buildDataPayload 0x0410 (Fin (1 / 10)) True
       = Inr (new_Uint8Array [0x00, 0x00, 0x04, 0x10, 0x3D, 0xCC, 0xCC, 0xCD])"
    by code_simp
  have zero_bytes:
    "buildDataPayload 0x0410 NegZero True
       = Inr (new_Uint8Array [0x00, 0x00, 0x04, 0x10, 0x80, 0x00, 0x00, 0x00])"
    by code_simp
  have int_bytes:
    "buildDataPayload 0x0400 (Fin (- (5 / 2))) False
       = Inr (new_Uint8Array [0x00, 0x00, 0x04, 0x00, 0xFF, 0xFF, 0xFF, 0xFE])"
    by code_simp
  have below: "finite_value (float32_value 0x3DCCCCCC) = Some (3355443 / 33554432)"
    by code_simp
  have above: "finite_value (float32_value 0x3DCCCCCE) = Some (6710887 / 67108864)"
    by code_simp
  have finite: "\<not> (2 ^ 128 - 2 ^ 103 \<le> \<bar>1 / 10 :: rat\<bar>)"
    by simp
  from payload_layout [of "0x0410" "Fin (1 / 10)" True] float_bytes finite
  have tenth: "\<not> bit (be32 0x3D 0xCC 0xCC 0xCD) 31 \<and>
     (\<exists>y. finite_value (float32_value (be32 0x3D 0xCC 0xCC 0xCD)) = Some y
         \<and> (\<forall>w' y'. finite_value (float32_value w') = Some y' \<longrightarrow>
                      \<bar>y - 1 / 10\<bar> \<le> \<bar>y' - 1 / 10\<bar>))"
    by (auto simp: new_Uint8Array_def)
  then obtain y where y: "finite_value (float32_value (be32 0x3D 0xCC 0xCC 0xCD)) = Some y"
    and nearest: "\<And>w' y'. finite_value (float32_value w') = Some y' \<Longrightarrow>
                    \<bar>y - 1 / 10\<bar> \<le> \<bar>y' - 1 / 10\<bar>"
    by blast
  from nearest [OF below] nearest [OF above] y
  have near: "\<exists>y. finite_value (float32_value (be32 0x3D 0xCC 0xCC 0xCD)) = Some y
          \<and> \<bar>y - 1 / 10\<bar> \<le> \<bar>3355443 / 33554432 - 1 / 10\<bar>
          \<and> \<bar>y - 1 / 10\<bar> \<le> \<bar>6710887 / 67108864 - 1 / 10\<bar>"
    by blast
  from payload_layout [of "0x0410" NegZero True] zero_bytes
  have zero: "be32 0x80 0x00 0x00 0x00 = 0x80000000"
    by (auto simp: new_Uint8Array_def)
  from payload_layout [of "0x0400" "Fin (- (5 / 2))" False] int_bytes
  obtain n :: int where n: "of_int n - 1 < (- (5 / 2) :: rat)" "(- (5 / 2) :: rat) \<le> of_int n"
    and signed: "- (2 ^ 31) \<le> n \<and> n < 2 ^ 31 \<longrightarrow> sint (be32 0xFF 0xFF 0xFF 0xFE) = n"
    by (auto simp: new_Uint8Array_def)
  from n(1) have "(of_int n :: rat) < of_int (- 1)" by simp
  then have "n < - 1" by (simp only: of_int_less_iff)
  moreover from n(2) have "(of_int (- 3) :: rat) < of_int n" by simp
  then have "- 3 < n" by (simp only: of_int_less_iff)
  ultimately have "n = - 2" by simp
  with signed have int: "sint (be32 0xFF 0xFF 0xFF 0xFE) = - 2" by simp
  from float_bytes tenth near zero_bytes zero int_bytes int show ?thesis
    by blast
qed

section \<open>The payload round trip\<close>

text \<open>Every definition of the table sits under its own address, a 16-bit number.\<close>

lemma register_address:
  assumes "REGISTERS r = Some rd"
  shows "address rd = r" and "0 \<le> r" and "r < 65536"
proof -
  from assms have "(r, rd) \<in> set REGISTER_LIST"
    unfolding REGISTERS_def by (rule map_of_SomeD)
  then show "address rd = r" and "0 \<le> r" and "r < 65536"
    by (auto simp: REGISTER_LIST_def mkreg_def)
qed

lemma ToIntegerOrZero_of_int: "ToIntegerOrZero (Fin (of_int v)) = v"
  by (simp add: ToIntegerOrZero_def)

text \<open>Two decimals: a multiple of one hundredth, at most half a hundredth away.\<close>

lemma toFixed2_value_hundredths: "\<exists>k. toFixed2_value x = of_int k / 100"
proof (cases "x < 0")
  case True
  then have "toFixed2_value x = of_int (- \<lfloor>\<bar>x\<bar> * 100 + 1 / 2\<rfloor>) / 100"
    by (simp add: toFixed2_value_def Let_def)
  then show ?thesis by blast
next
  case False
  then have "toFixed2_value x = of_int \<lfloor>\<bar>x\<bar> * 100 + 1 / 2\<rfloor> / 100"
    by (simp add: toFixed2_value_def Let_def)
  then show ?thesis by blast
qed

lemma toFixed2_value_close: "\<bar>toFixed2_value x - x\<bar> \<le> 1 / 200"
proof -
  define a where "a = \<bar>x\<bar>"
  define n where "n = \<lfloor>a * 100 + 1 / 2\<rfloor>"
  have lower: "of_int n \<le> a * 100 + 1 / 2"
    unfolding n_def by (rule of_int_floor_le)
  have upper: "a * 100 + 1 / 2 < of_int n + 1"
    unfolding n_def by linarith
  have above: "of_int n / 100 - a \<le> 1 / 200"
    using lower by (simp add: field_simps)
  have below: "- (1 / 200) \<le> of_int n / 100 - a"
    using upper by (simp add: field_simps)
  have mag: "\<bar>of_int n / 100 - a\<bar> \<le> 1 / 200"
    using above below by linarith
  show ?thesis
  proof (cases "x < 0")
    case True
    then have "toFixed2_value x - x = - (of_int n / 100 - a)"
      by (simp add: toFixed2_value_def Let_def n_def a_def)
    with mag show ?thesis by linarith
  next
    case False
    then have "toFixed2_value x - x = of_int n / 100 - a"
      by (simp add: toFixed2_value_def Let_def n_def a_def)
    with mag show ?thesis by simp
  qed
qed

text \<open>Decoding what \<open>buildDataPayload\<close> built.\<close>

lemma decode_built_payload:
  assumes "REGISTERS reg = Some rd"
  shows "\<exists>p. buildDataPayload reg val isFloat = Inr p \<and>
           (\<exists>f. decodeFrame ident p = Inr f \<and> register f = reg \<and>
                decodedValue f =
                  (if type rd = READ_ONLY_FLOAT \<or> type rd = WRITE_ONLY_FLOAT
                   then NumVal (parseFloat_toFixed2
                                  (float32_value (if isFloat then float32_bits val
                                                  else ToInt32 (ToIntegerOrZero val))))
                   else decodeInt rd (sint (if isFloat then float32_bits val
                                            else ToInt32 (ToIntegerOrZero val)))))"
proof -
  let ?r = "word_of_int reg :: 16 word"
  let ?v = "if isFloat then float32_bits val else ToInt32 (ToIntegerOrZero val)"
  let ?p = "[0, 0, ucast (drop_bit 8 ?r), ucast ?r,
             ucast (drop_bit 24 ?v), ucast (drop_bit 16 ?v), ucast (drop_bit 8 ?v), ucast ?v]"
  have built: "buildDataPayload reg val isFloat = Inr (new_Uint8Array ?p)"
    unfolding buildDataPayload_bytes by (simp add: bytes16_def bytes32_def)
  have long: "8 \<le> length (buffer (new_Uint8Array ?p))" by simp
  have "uint (be16 (?p ! 2) (?p ! 3)) = uint ?r"
    by (simp add: be16_bytes16)
  also have "\<dots> = reg"
    using register_address(2,3) [OF assms] by (simp add: uint_word_of_int)
  finally have reg: "uint (be16 (?p ! 2) (?p ! 3)) = reg" .
  have data: "word32_at ?p 4 = ?v"
    unfolding word32_at_4 by (simp add: be32_bytes32)
  have "\<exists>f. decodeFrame ident (new_Uint8Array ?p) = Inr f \<and> register f = reg \<and>
            decodedValue f =
              (if type rd = READ_ONLY_FLOAT \<or> type rd = WRITE_ONLY_FLOAT
               then NumVal (parseFloat_toFixed2 (float32_value ?v))
               else decodeInt rd (sint ?v))"
    unfolding decodeFrame_long [OF long] new_Uint8Array_simps
      decodeValue_long [OF long [unfolded new_Uint8Array_simps]] reg data assms
    by simp
  with built show ?thesis by blast
qed

text \<open>
  Claim C2 says that the decoded value of a built payload equals the value, exactly
  for an integer. It does not when the register has a label for the value: register
  0x0101 with the value 7 and \<open>isFloat\<close> false decodes to the text "7 (Running)",
  not to the number 7.
\<close>

theorem status_value_decodes_to_text:
  "map_option type (REGISTERS 0x0101) = Some READ_ONLY_INT
   \<and> buildDataPayload 0x0101 (Fin 7) False
       = Inr (new_Uint8Array [0x00, 0x00, 0x01, 0x01, 0x00, 0x00, 0x00, 0x07])
   \<and> map_sum id decodedValue
         (decodeFrame 0x1581A002
            (new_Uint8Array [0x00, 0x00, 0x01, 0x01, 0x00, 0x00, 0x00, 0x07]))
       = Inr (StrVal ''7 (Running)'')
   \<and> StrVal ''7 (Running)'' \<noteq> NumVal (Fin 7)"
  by code_simp

text \<open>
  Claim C2, amended. For a register of the table, decoding the payload built for it
  gives the register back. With \<open>isFloat\<close> false, an integer register and a signed
  32-bit value \<open>v\<close>, the decoded value is \<open>v\<close> itself, unless the register has a label
  for \<open>v\<close> (then it is the text "<v> (<label>)") or is the alarm register 0x0100 (then
  it is the text of the alarm labels). With \<open>isFloat\<close> true, a float register and a
  binary32 value, the decoded value is the value rounded to two decimals: for a finite
  value below \<open>10 ^ 21\<close> in magnitude a multiple of one hundredth at most half a
  hundredth away, the negative zero when a negative value is rounded to zero; a larger
  value, an infinity or NaN comes back as it is, and the negative zero comes back as
  zero.
\<close>

theorem payload_round_trip:
  assumes "REGISTERS reg = Some rd"
    and "if isFloat
         then (type rd = READ_ONLY_FLOAT \<or> type rd = WRITE_ONLY_FLOAT) \<and> val = float32_value w
         else (type rd = READ_ONLY_INT \<or> type rd = WRITE_ONLY_INT) \<and> val = Fin (of_int v)
              \<and> - (2 ^ 31) \<le> v \<and> v < 2 ^ 31"
  shows "(\<exists>p f. buildDataPayload reg val isFloat = Inr p \<and> decodeFrame ident p = Inr f \<and>
            register f = reg \<and>
            decodedValue f =
              (if isFloat then NumVal (parseFloat_toFixed2 val)
               else if option_label rd v \<noteq> ''''
               then StrVal (toStringInt v @ '' ('' @ option_label rd v @ '')'')
               else if reg = 0x0100
               then (let labels = map ((!) ALARM_BITS) (filter (bit (ToInt32 v)) [0..<32])
                     in StrVal (if labels = [] then ''No Alarms'' else join '', '' labels))
               else NumVal val))
         \<and> (case val of
               Fin x \<Rightarrow>
                 if \<bar>x\<bar> < 10 ^ 21
                 then \<exists>k. parseFloat_toFixed2 val
                            = (if x < 0 \<and> k = 0 then NegZero else Fin (of_int k / 100))
                          \<and> \<bar>of_int k / 100 - x\<bar> \<le> 1 / 200
                 else parseFloat_toFixed2 val = val
             | NegZero \<Rightarrow> parseFloat_toFixed2 val = Fin 0
             | _ \<Rightarrow> parseFloat_toFixed2 val = val)"
proof (intro conjI)
  from decode_built_payload [OF assms(1), of val isFloat ident]
  obtain p f where built: "buildDataPayload reg val isFloat = Inr p"
    and decoded: "decodeFrame ident p = Inr f"
    and reg: "register f = reg"
    and dv: "decodedValue f =
               (if type rd = READ_ONLY_FLOAT \<or> type rd = WRITE_ONLY_FLOAT
                then NumVal (parseFloat_toFixed2
                               (float32_value (if isFloat then float32_bits val
                                               else ToInt32 (ToIntegerOrZero val))))
                else decodeInt rd (sint (if isFloat then float32_bits val
                                         else ToInt32 (ToIntegerOrZero val))))"
    by blast
  have "decodedValue f =
          (if isFloat then NumVal (parseFloat_toFixed2 val)
           else if option_label rd v \<noteq> ''''
           then StrVal (toStringInt v @ '' ('' @ option_label rd v @ '')'')
           else if reg = 0x0100
           then (let labels = map ((!) ALARM_BITS) (filter (bit (ToInt32 v)) [0..<32])
                 in StrVal (if labels = [] then ''No Alarms'' else join '', '' labels))
           else NumVal val)"
  proof (cases isFloat)
    case True
    with assms(2) have kind: "type rd = READ_ONLY_FLOAT \<or> type rd = WRITE_ONLY_FLOAT"
      and val: "val = float32_value w" by simp_all
    from True kind dv show ?thesis
      by (simp add: val float32_value_bits_value)
  next
    case False
    with assms(2) have kind: "\<not> (type rd = READ_ONLY_FLOAT \<or> type rd = WRITE_ONLY_FLOAT)"
      and val: "val = Fin (of_int v)" and range: "- (2 ^ 31) \<le> v" "v < 2 ^ 31"
      by auto
    have "sint (ToInt32 (ToIntegerOrZero val)) = v"
      unfolding val ToIntegerOrZero_of_int using range by (rule sint_ToInt32)
    with False kind dv have "decodedValue f = decodeInt rd v" by simp
    then show ?thesis
      using False register_address(1) [OF assms(1)]
      by (simp add: decodeInt_def alarm_loop_labels val Let_def del: upt_rec_numeral)
  qed
  with built decoded reg
  show "\<exists>p f. buildDataPayload reg val isFloat = Inr p \<and> decodeFrame ident p = Inr f \<and>
            register f = reg \<and>
            decodedValue f =
              (if isFloat then NumVal (parseFloat_toFixed2 val)
               else if option_label rd v \<noteq> ''''
               then StrVal (toStringInt v @ '' ('' @ option_label rd v @ '')'')
               else if reg = 0x0100
               then (let labels = map ((!) ALARM_BITS) (filter (bit (ToInt32 v)) [0..<32])
                     in StrVal (if labels = [] then ''No Alarms'' else join '', '' labels))
               else NumVal val)"
    by blast
next
  show "case val of
          Fin x \<Rightarrow>
            if \<bar>x\<bar> < 10 ^ 21
            then \<exists>k. parseFloat_toFixed2 val
                       = (if x < 0 \<and> k = 0 then NegZero else Fin (of_int k / 100))
                     \<and> \<bar>of_int k / 100 - x\<bar> \<le> 1 / 200
            else parseFloat_toFixed2 val = val
        | NegZero \<Rightarrow> parseFloat_toFixed2 val = Fin 0
        | _ \<Rightarrow> parseFloat_toFixed2 val = val"
  proof (cases val)
    case (Fin x)
    from toFixed2_value_hundredths [of x] obtain k where k: "toFixed2_value x = of_int k / 100"
      by blast
    with toFixed2_value_close [of x] have close: "\<bar>of_int k / 100 - x\<bar> \<le> 1 / 200" by simp
    have zero: "toFixed2_value x = 0 \<longleftrightarrow> k = 0" unfolding k by simp
    have "parseFloat_toFixed2 (Fin x)
            = (if \<bar>x\<bar> < 10 ^ 21
               then (if x < 0 \<and> k = 0 then NegZero else Fin (of_int k / 100))
               else Fin x)"
      by (simp add: parseFloat_toFixed2_def zero k)
    with close Fin show ?thesis by auto
  qed (simp_all add: parseFloat_toFixed2_def)
qed

theorem payload_round_trip_witness:
  "(\<exists>p f. buildDataPayload 0x0110 (Fin (- 2)) False = Inr p \<and>
          decodeFrame 0x1581A002 p = Inr f \<and> register f = 0x0110 \<and>
          decodedValue f = NumVal (Fin (- 2)))
   \<and> (\<exists>p f. buildDataPayload 0x0410 (Fin 700) True = Inr p \<and>
            decodeFrame 0x1581A002 p = Inr f \<and> register f = 0x0410 \<and>
            decodedValue f = NumVal (Fin 700))"
proof
  let ?rd = "mkreg 0x0110 ''ON/OFF Status'' READ_ONLY_INT None ''0=Start, 1=Stop'' None"
  have reg: "REGISTERS 0x0110 = Some ?rd"
    by code_simp
  have fits: "if False
              then (type ?rd = READ_ONLY_FLOAT \<or> type ?rd = WRITE_ONLY_FLOAT)
                   \<and> Fin (of_int (- 2)) = float32_value 0
              else (type ?rd = READ_ONLY_INT \<or> type ?rd = WRITE_ONLY_INT)
                   \<and> Fin (of_int (- 2)) = Fin (of_int (- 2))
                   \<and> - (2 ^ 31) \<le> (- 2 :: int) \<and> (- 2 :: int) < 2 ^ 31"
    by (simp add: mkreg_def)
  have no_label: "option_label ?rd (- 2) = ''''"
    by code_simp
  from payload_round_trip [OF reg fits, of "0x1581A002"]
  show "\<exists>p f. buildDataPayload 0x0110 (Fin (- 2)) False = Inr p \<and>
          decodeFrame 0x1581A002 p = Inr f \<and> register f = 0x0110 \<and>
          decodedValue f = NumVal (Fin (- 2))"
    by (simp add: no_label)
next
  let ?rd = "mkreg 0x0410 ''Set Output Voltage'' WRITE_ONLY_FLOAT (Some ''V'')
               ''Target voltage setting'' None"
  have reg: "REGISTERS 0x0410 = Some ?rd"
    by code_simp
  have val: "float32_value 0x442F0000 = Fin 700"
    by code_simp
  have fits: "if True
              then (type ?rd = READ_ONLY_FLOAT \<or> type ?rd = WRITE_ONLY_FLOAT)
                   \<and> Fin 700 = float32_value 0x442F0000
              else (type ?rd = READ_ONLY_INT \<or> type ?rd = WRITE_ONLY_INT)
                   \<and> Fin 700 = Fin (of_int 0)
                   \<and> - (2 ^ 31) \<le> (0 :: int) \<and> (0 :: int) < 2 ^ 31"
    by (simp add: mkreg_def val)
  have rounded: "parseFloat_toFixed2 (Fin 700) = Fin 700"
    by code_simp
  from payload_round_trip [OF reg fits, of "0x1581A002"]
  show "\<exists>p f. buildDataPayload 0x0410 (Fin 700) True = Inr p \<and>
          decodeFrame 0x1581A002 p = Inr f \<and> register f = 0x0410 \<and>
          decodedValue f = NumVal (Fin 700)"
    by (simp add: rounded)
qed

end
